theory Spec2Isabelle
  imports Complex_Main "HOL-Library.Word"
begin

section \<open>Machine types and library primitives\<close>

text \<open>
  The engine is C++ built for an LP64 target: \<open>size_t\<close>, \<open>std::uint64_t\<close>
  and the representation of \<open>std::chrono::microseconds\<close> are 64 bits wide.
  Unsigned arithmetic wraps modulo \<open>2 ^ 64\<close>; that is the arithmetic of \<open>64 word\<close>.
\<close>

type_synonym u64 = "64 word"

text \<open>
  The value of a \<open>double\<close>, as far as the comparisons of the engine can tell:
  a finite value is a rational number (the two zeros compare equal), and there are
  the two infinities and the NaNs.
\<close>

datatype double = NaN | NInf | Fin rat | PInf

text \<open>\<open>operator!=\<close> and \<open>operator>\<close> on \<open>double\<close>: unordered when a NaN takes part.\<close>

fun dbl_ne :: "double \<Rightarrow> double \<Rightarrow> bool" where
  "dbl_ne NaN _ = True"
| "dbl_ne _ NaN = True"
| "dbl_ne a b = (a \<noteq> b)"

fun dbl_gt :: "double \<Rightarrow> double \<Rightarrow> bool" where
  "dbl_gt NaN _ = False"
| "dbl_gt _ NaN = False"
| "dbl_gt (Fin a) (Fin b) = (b < a)"
| "dbl_gt PInf b = (b \<noteq> PInf)"
| "dbl_gt a NInf = (a \<noteq> NInf)"
| "dbl_gt _ _ = False"

text \<open>\<open>std::to_string\<close> of an unsigned integer: its decimal digits, no leading zero.\<close>

definition digit_char :: "nat \<Rightarrow> char" where
  "digit_char d = ''0123456789'' ! d"

fun to_string_nat :: "nat \<Rightarrow> string" where
  "to_string_nat n =
     (if n < 10 then [digit_char n] else to_string_nat (n div 10) @ [digit_char (n mod 10)])"

declare to_string_nat.simps [simp del]

definition to_string_u64 :: "u64 \<Rightarrow> string" where
  "to_string_u64 w = to_string_nat (unat w)"

section \<open>TickData (tick\_data.h)\<close>

record TickData =
  timestamp_us :: u64
  symbol :: string
  exchange :: string
  price :: double
  quantity :: u64
  side :: char
  receive_time_us :: u64
  process_time_us :: u64

text \<open>
  The five-argument constructor reads the system clock once; \<open>now\<close> is that reading,
  in microseconds.
\<close>

definition TickData_ctor :: "u64 \<Rightarrow> string \<Rightarrow> string \<Rightarrow> double \<Rightarrow> u64 \<Rightarrow> char \<Rightarrow> TickData" where
  "TickData_ctor now smb exch p qty s =
     \<lparr>timestamp_us = now, symbol = smb, exchange = exch, price = p, quantity = qty,
      side = s, receive_time_us = now, process_time_us = 0\<rparr>"

text \<open>
  \<open>to_ilp_format\<close>. The text \<open>std::to_string\<close> gives for a \<open>double\<close> is the C
  library's \<open>%f\<close> conversion; it is the parameter \<open>dts\<close>. The timestamp is multiplied
  in \<open>std::uint64_t\<close>.
\<close>

definition to_ilp_format :: "(double \<Rightarrow> string) \<Rightarrow> TickData \<Rightarrow> string" where
  "to_ilp_format dts t =
     ''trades,symbol='' @ symbol t @ '',exchange='' @ exchange t @
     '' price='' @ dts (price t) @
     '',quantity='' @ to_string_u64 (quantity t) @
     '',side='' @ [CHR 0x22] @ [side t] @ [CHR 0x22] @
     '' '' @ to_string_u64 (timestamp_us t * 1000)"

section \<open>ILPWriter (ilp\_types.h, ilp\_writer.h, ilp\_writer.cpp)\<close>

record ILPConfig =
  questdb_host :: string
  questdb_port :: int
  batch_size :: u64

record ILPStats =
  lines_sent :: u64
  batches_sent :: u64
  errors :: u64

text \<open>
  The writer's members. \<open>flush_log\<close> is what \<open>flush\<close> writes to \<open>std::cout\<close>:
  one entry per line \<open>Sent batch of <n> ticks in <d> microseconds\<close>, holding \<open>n\<close>.
\<close>

record ILPWriter =
  config :: ILPConfig
  stats :: ILPStats
  current_batch :: "string list"
  running :: bool
  socket_fd :: int
  flush_log :: "nat list"

definition ILPWriter_ctor :: "ILPConfig \<Rightarrow> ILPWriter" where
  "ILPWriter_ctor cfg =
     \<lparr>config = cfg, stats = \<lparr>lines_sent = 0, batches_sent = 0, errors = 0\<rparr>,
      current_batch = [], running = False, socket_fd = - 1, flush_log = []\<rparr>"

text \<open>The payload \<open>send_batch\<close> hands to \<open>send\<close>: every line followed by a newline.\<close>

definition batch_data :: "string list \<Rightarrow> string" where
  "batch_data lines = concat (map (\<lambda>line. line @ [CHR 0x0A]) lines)"

text \<open>
  \<open>send_batch\<close>. \<open>send\<close> is the socket call: given the descriptor and the payload it
  answers the number of bytes taken, or a negative number on error.
\<close>

definition send_batch :: "(int \<Rightarrow> string \<Rightarrow> int) \<Rightarrow> int \<Rightarrow> string list \<Rightarrow> bool" where
  "send_batch send fd lines =
     (if fd < 0 then False
      else if send fd (batch_data lines) < 0 then False
      else True)"

definition flush :: "(int \<Rightarrow> string \<Rightarrow> int) \<Rightarrow> ILPWriter \<Rightarrow> ILPWriter" where
  "flush send w =
     (if current_batch w = [] \<or> \<not> running w then w
      else
        let success = send_batch send (socket_fd w) (current_batch w);
            n = length (current_batch w);
            st = stats w;
            st' = (if success
                   then st\<lparr>lines_sent := lines_sent st + of_nat n,
                           batches_sent := batches_sent st + 1\<rparr>
                   else st\<lparr>errors := errors st + 1\<rparr>)
        in w\<lparr>stats := st', flush_log := flush_log w @ [n], current_batch := []\<rparr>)"

definition write_tick ::
  "(double \<Rightarrow> string) \<Rightarrow> (int \<Rightarrow> string \<Rightarrow> int) \<Rightarrow> ILPWriter \<Rightarrow> TickData \<Rightarrow> ILPWriter" where
  "write_tick dts send w tick =
     (if \<not> running w then w
      else
        let ilp_line = to_ilp_format dts tick;
            w1 = w\<lparr>current_batch := current_batch w @ [ilp_line]\<rparr>
        in if unat (batch_size (config w1)) \<le> length (current_batch w1)
           then flush send w1 else w1)"

text \<open>
  A sequence of \<open>write_tick\<close> calls. Each call comes with the behaviour of the socket
  at that moment, since a send can succeed at one call and fail at the next.
\<close>

fun write_ticks ::
  "(double \<Rightarrow> string) \<Rightarrow> ILPWriter \<Rightarrow> (TickData \<times> (int \<Rightarrow> string \<Rightarrow> int)) list \<Rightarrow> ILPWriter" where
  "write_ticks dts w [] = w"
| "write_ticks dts w ((tick, send) # rest) = write_ticks dts (write_tick dts send w tick) rest"

section \<open>Rate limiter (alpha\_vantage\_client.cpp)\<close>

text \<open>
  A \<open>system_clock::time_point\<close> is a count of clock ticks, an integer. The number of
  ticks in \<open>std::chrono::hours(24)\<close> depends on the clock's period (microseconds with
  libc++, nanoseconds with libstdc++); it is the parameter \<open>h24\<close> of both functions.
  \<open>now\<close> is the reading of the clock the function takes.
\<close>

definition MAX_REQUESTS_PER_DAY :: nat where
  "MAX_REQUESTS_PER_DAY = 25"

text \<open>The counting loop of \<open>can_make_request\<close>; \<open>n\<close> is \<open>recent_requests\<close>.\<close>

fun count_recent :: "int \<Rightarrow> int list \<Rightarrow> nat \<Rightarrow> nat" where
  "count_recent cutoff [] n = n"
| "count_recent cutoff (t # ts) n = count_recent cutoff ts (if cutoff < t then n + 1 else n)"

text \<open>
  \<open>can_make_request\<close> is a \<open>const\<close> member function. It answers with its result and
  leaves \<open>request_times_\<close> as the second component.
\<close>

definition can_make_request :: "int \<Rightarrow> int \<Rightarrow> int list \<Rightarrow> bool \<times> int list" where
  "can_make_request h24 now request_times =
     (let twenty_four_hours_ago = now - h24;
          recent_requests = count_recent twenty_four_hours_ago request_times 0
      in (recent_requests < MAX_REQUESTS_PER_DAY, request_times))"

text \<open>The predicate \<open>record_request\<close> gives to \<open>std::remove_if\<close>.\<close>

definition is_expired :: "int \<Rightarrow> int \<Rightarrow> bool" where
  "is_expired twenty_four_hours_ago time = (time \<le> twenty_four_hours_ago)"

text \<open>\<open>record_request\<close>: \<open>push_back\<close>, then the erase-remove of the expired entries.\<close>

definition record_request :: "int \<Rightarrow> int \<Rightarrow> int list \<Rightarrow> int list" where
  "record_request h24 now request_times =
     (let pushed = request_times @ [now];
          twenty_four_hours_ago = now - h24
      in filter (\<lambda>time. \<not> is_expired twenty_four_hours_ago time) pushed)"

text \<open>A series of \<open>record_request\<close> calls, one at each of the given clock readings.\<close>

fun record_requests :: "int \<Rightarrow> int list \<Rightarrow> int list \<Rightarrow> int list" where
  "record_requests h24 request_times [] = request_times"
| "record_requests h24 request_times (now # nows) =
     record_requests h24 (record_request h24 now request_times) nows"

section \<open>Latency metrics (alpha\_vantage\_client.h, data\_fetch\_loop)\<close>

text \<open>
  The three latencies are \<open>std::chrono::microseconds\<close>, a signed 64-bit count; they are
  kept as the 64 bits and read with \<open>sint\<close> where the code compares durations.
\<close>

record LatencyMetrics =
  avg_api_latency :: u64
  max_api_latency :: u64
  min_api_latency :: u64
  request_count :: u64
  error_count :: u64

definition LatencyMetrics_init :: LatencyMetrics where
  "LatencyMetrics_init =
     \<lparr>avg_api_latency = 0, max_api_latency = 0, min_api_latency = 0x7FFFFFFFFFFFFFFF,
      request_count = 0, error_count = 0\<rparr>"

text \<open>
  The block of \<open>data_fetch_loop\<close> under \<open>metrics_mutex_\<close>, for one request:
  \<open>response_empty\<close> is \<open>response.empty()\<close> and \<open>latency\<close> is \<open>latency.count()\<close>.
  The product, the sum and the quotient are computed in unsigned 64-bit arithmetic
  (\<open>request_count\<close> is a \<open>size_t\<close>). A division by zero, which needs the counter to
  wrap around, has no defined result: \<open>None\<close>.
\<close>

definition update_latency_metrics :: "bool \<Rightarrow> u64 \<Rightarrow> LatencyMetrics \<Rightarrow> LatencyMetrics option" where
  "update_latency_metrics response_empty latency m =
     (let m1 = m\<lparr>request_count := request_count m + 1\<rparr>
      in if response_empty then Some (m1\<lparr>error_count := error_count m1 + 1\<rparr>)
         else if request_count m1 = 0 then None
         else
           let total_latency = avg_api_latency m1 * (request_count m1 - 1);
               m2 = m1\<lparr>avg_api_latency := (total_latency + latency) div request_count m1\<rparr>;
               m3 = (if sint (max_api_latency m2) < sint latency
                     then m2\<lparr>max_api_latency := latency\<rparr> else m2);
               m4 = (if sint latency < sint (min_api_latency m3)
                     then m3\<lparr>min_api_latency := latency\<rparr> else m3)
           in Some m4)"

text \<open>The updates of successive requests of the fetch loop.\<close>

fun update_latency_metrics_all :: "LatencyMetrics \<Rightarrow> (bool \<times> u64) list \<Rightarrow> LatencyMetrics option" where
  "update_latency_metrics_all m [] = Some m"
| "update_latency_metrics_all m ((response_empty, latency) # rest) =
     (case update_latency_metrics response_empty latency m of
        None \<Rightarrow> None
      | Some m' \<Rightarrow> update_latency_metrics_all m' rest)"

section \<open>\<open>std::string\<close> operations\<close>

text \<open>
  A position that \<open>std::string\<close> reports as \<open>npos\<close> is \<open>None\<close>. The scanning loops
  run over the rest of the string from the current index, which they carry along.
\<close>

fun find_scan :: "string \<Rightarrow> string \<Rightarrow> nat \<Rightarrow> nat option" where
  "find_scan pat [] i = (if pat = [] then Some i else None)"
| "find_scan pat (c # cs) i =
     (if take (length pat) (c # cs) = pat then Some i else find_scan pat cs (Suc i))"

text \<open>\<open>s.find(pat, pos)\<close>: the first index from \<open>pos\<close> on at which \<open>pat\<close> occurs.\<close>

definition str_find :: "string \<Rightarrow> string \<Rightarrow> nat \<Rightarrow> nat option" where
  "str_find s pat pos = (if length s < pos then None else find_scan pat (drop pos s) pos)"

text \<open>\<open>s.substr(pos, n)\<close>; every call of the engine has \<open>pos \<le> s.size()\<close>.\<close>

definition substr :: "string \<Rightarrow> nat \<Rightarrow> nat \<Rightarrow> string" where
  "substr s pos n = take n (drop pos s)"

text \<open>\<open>while (i < s.length() && P(s[i])) i++\<close>, run on the rest of \<open>s\<close> from \<open>i\<close>.\<close>

fun scan_while :: "(char \<Rightarrow> bool) \<Rightarrow> string \<Rightarrow> nat \<Rightarrow> nat" where
  "scan_while P [] i = i"
| "scan_while P (c # cs) i = (if P c then scan_while P cs (Suc i) else i)"

definition find_first_not_of :: "string \<Rightarrow> string \<Rightarrow> nat option" where
  "find_first_not_of s chars =
     (let i = scan_while (\<lambda>c. c \<in> set chars) s 0 in if i < length s then Some i else None)"

definition find_last_not_of :: "string \<Rightarrow> string \<Rightarrow> nat option" where
  "find_last_not_of s chars =
     (let k = scan_while (\<lambda>c. c \<in> set chars) (rev s) 0
      in if k < length s then Some (length s - 1 - k) else None)"

text \<open>\<open>std::isspace\<close> in the C locale: space, \<open>\t\<close>, \<open>\n\<close>, \<open>\v\<close>, \<open>\f\<close>, \<open>\r\<close>.\<close>

definition isspace :: "char \<Rightarrow> bool" where
  "isspace c = (c \<in> set [CHR 0x20, CHR 0x09, CHR 0x0A, CHR 0x0B, CHR 0x0C, CHR 0x0D])"

text \<open>The characters of the literal \<open>" \t\r\n"\<close> that the extractor trims.\<close>

definition trim_chars :: string where
  "trim_chars = [CHR 0x20, CHR 0x09, CHR 0x0D, CHR 0x0A]"

section \<open>Response extractor (alpha\_vantage\_client.cpp)\<close>

definition extract_json_value :: "string \<Rightarrow> string \<Rightarrow> string" where
  "extract_json_value json key =
     (let search_key = [CHR 0x22] @ key @ [CHR 0x22] @ '':''
      in case str_find json search_key 0 of
           None \<Rightarrow> []
         | Some found \<Rightarrow>
             let start0 = found + length search_key;
                 start = scan_while isspace (drop start0 json) start0
             in if length json \<le> start then []
                else if json ! start = CHR 0x22 then
                  (let start1 = start + 1
                   in case str_find json [CHR 0x22] start1 of
                        None \<Rightarrow> []
                      | Some end \<Rightarrow> substr json start1 (end - start1))
                else
                  (let end = scan_while (\<lambda>c. c \<noteq> CHR '','' \<and> c \<noteq> CHR ''}'' \<and> c \<noteq> CHR '']'')
                               (drop start json) start;
                       value0 = substr json start (end - start);
                       value1 = (case find_first_not_of value0 trim_chars of
                                   None \<Rightarrow> []
                                 | Some n \<Rightarrow> drop n value0);
                       value2 = (case find_last_not_of value1 trim_chars of
                                   None \<Rightarrow> take 0 value1
                                 | Some n \<Rightarrow> take (n + 1) value1)
                   in value2))"

text \<open>
  What the claim about the extractor calls trimming, in the words of the specification:
  the characters of \<open>trim_chars\<close> removed from both ends.
\<close>

definition trimmed :: "string \<Rightarrow> string" where
  "trimmed s =
     rev (dropWhile (\<lambda>c. c \<in> set trim_chars) (rev (dropWhile (\<lambda>c. c \<in> set trim_chars) s)))"

section \<open>Parsing a response (alpha\_vantage\_client.cpp)\<close>

text \<open>
  The part of \<open>parse_time_series_response\<close> that locates the data block of the first
  dated entry after the marker \<open>"Time Series (Daily)"\<close>. \<open>None\<close> is a \<open>return false\<close>.
\<close>

definition find_data_block :: "string \<Rightarrow> string option" where
  "find_data_block json_response =
     (case str_find json_response ([CHR 0x22] @ ''Time Series (Daily)'' @ [CHR 0x22]) 0 of
        None \<Rightarrow> None
      | Some time_series_pos \<Rightarrow>
          (case str_find json_response ([CHR 0x22] @ ''20'') time_series_pos of
             None \<Rightarrow> None
           | Some date_start \<Rightarrow>
               (case str_find json_response [CHR 0x22] (date_start + 1) of
                  None \<Rightarrow> None
                | Some date_end \<Rightarrow>
                    (case str_find json_response ''{'' date_end of
                       None \<Rightarrow> None
                     | Some data_start \<Rightarrow>
                         (case str_find json_response ''}'' data_start of
                            None \<Rightarrow> None
                          | Some data_end \<Rightarrow>
                              Some (substr json_response data_start
                                      (data_end - data_start + 1)))))))"

text \<open>
  The part of the \<open>try\<close> block after the conversions: the exchange taken from the
  symbol, and the ticks pushed onto \<open>ticks\<close>. \<open>clock k\<close> is the \<open>k\<close>-th reading of the
  system clock in microseconds: reading 0 is \<open>timestamp_us\<close>, and each \<open>TickData\<close>
  constructor takes the next one.
\<close>

definition synthesize_ticks ::
  "(nat \<Rightarrow> u64) \<Rightarrow> string \<Rightarrow> double \<Rightarrow> double \<Rightarrow> double \<Rightarrow> double \<Rightarrow> u64 \<Rightarrow>
   TickData list \<Rightarrow> TickData list" where
  "synthesize_ticks clock smb open_price high_price low_price close_price volume ticks =
     (let dot_pos = str_find smb ''.'' 0;
          clean_symbol = (case dot_pos of None \<Rightarrow> smb | Some d \<Rightarrow> substr smb 0 d);
          exch = (case dot_pos of None \<Rightarrow> ''BSE''
                  | Some d \<Rightarrow> substr smb (d + 1) (length smb));
          timestamp = clock 0;
          open_tick = (TickData_ctor (clock 1) clean_symbol exch open_price (volume div 4) CHR ''B'')
                        \<lparr>timestamp_us := timestamp\<rparr>;
          ticks1 = ticks @ [open_tick];
          n1 = 1;
          high_tick = (TickData_ctor (clock (n1 + 1)) clean_symbol exch high_price (volume div 4) CHR ''B'')
                        \<lparr>timestamp_us := timestamp + 1\<rparr>;
          ticks2 = (if dbl_ne high_price open_price then ticks1 @ [high_tick] else ticks1);
          n2 = (if dbl_ne high_price open_price then n1 + 1 else n1);
          low_tick = (TickData_ctor (clock (n2 + 1)) clean_symbol exch low_price (volume div 4) CHR ''S'')
                        \<lparr>timestamp_us := timestamp + 2\<rparr>;
          emit_low = (dbl_ne low_price open_price \<and> dbl_ne low_price high_price);
          ticks3 = (if emit_low then ticks2 @ [low_tick] else ticks2);
          n3 = (if emit_low then n2 + 1 else n2);
          close_tick = (TickData_ctor (clock (n3 + 1)) clean_symbol exch close_price (volume div 4)
                          (if dbl_gt close_price open_price then CHR ''B'' else CHR ''S''))
                        \<lparr>timestamp_us := timestamp + 3\<rparr>
      in ticks3 @ [close_tick])"

text \<open>
  \<open>s.find(pat) != npos\<close>.
\<close>

definition str_contains :: "string \<Rightarrow> string \<Rightarrow> bool" where
  "str_contains s pat = (str_find s pat 0 \<noteq> None)"

text \<open>
  \<open>parse_time_series_response\<close>. The result is the returned flag and the vector
  \<open>ticks\<close> after the call. \<open>stod\<close> and \<open>stoull\<close> are the library conversions:
  \<open>None\<close> when the call throws, which the \<open>catch\<close> turns into \<open>return false\<close>.
\<close>

definition parse_time_series_response ::
  "(string \<Rightarrow> double option) \<Rightarrow> (string \<Rightarrow> u64 option) \<Rightarrow> (nat \<Rightarrow> u64) \<Rightarrow>
   string \<Rightarrow> string \<Rightarrow> TickData list \<Rightarrow> bool \<times> TickData list" where
  "parse_time_series_response stod stoull clock json_response smb ticks =
     (if json_response = [] then (False, ticks)
      else if str_contains json_response ''Error Message'' \<or>
              str_contains json_response ''Invalid API call'' then (False, ticks)
      else if str_contains json_response ''Thank you for using Alpha Vantage'' \<and>
              str_contains json_response ''call frequency'' then (False, ticks)
      else case find_data_block json_response of
             None \<Rightarrow> (False, ticks)
           | Some data_block \<Rightarrow>
               let open_str = extract_json_value data_block ''1. open'';
                   high_str = extract_json_value data_block ''2. high'';
                   low_str = extract_json_value data_block ''3. low'';
                   close_str = extract_json_value data_block ''4. close'';
                   volume_str = extract_json_value data_block ''5. volume''
               in if open_str = [] \<or> close_str = [] \<or> volume_str = [] then (False, ticks)
                  else
                    (case stod open_str of None \<Rightarrow> (False, ticks) | Some open_price \<Rightarrow>
                    (case stod high_str of None \<Rightarrow> (False, ticks) | Some high_price \<Rightarrow>
                    (case stod low_str of None \<Rightarrow> (False, ticks) | Some low_price \<Rightarrow>
                    (case stod close_str of None \<Rightarrow> (False, ticks) | Some close_price \<Rightarrow>
                    (case stoull volume_str of None \<Rightarrow> (False, ticks) | Some volume \<Rightarrow>
                       (True, synthesize_ticks clock smb open_price high_price low_price
                                close_price volume ticks)))))))"

text \<open>
  A field of a dated entry, in terms of the text of its data block alone: the key in
  double quotes followed by a colon, which is the first such marker of the block, then
  white space, then the value in double quotes.
\<close>

definition quoted_field :: "string \<Rightarrow> string \<Rightarrow> string \<Rightarrow> bool" where
  "quoted_field block key v =
     (\<exists>pre ws post.
        block = pre @ ([CHR 0x22] @ key @ [CHR 0x22] @ '':'') @ ws @ [CHR 0x22] @ v @ [CHR 0x22] @ post \<and>
        (\<nexists>p r. pre @ ([CHR 0x22] @ key @ [CHR 0x22]) = p @ ([CHR 0x22] @ key @ [CHR 0x22] @ '':'') @ r) \<and>
        list_all isspace ws \<and> CHR 0x22 \<notin> set v)"

section \<open>Example inputs\<close>

text \<open>
  Two responses in the shape the data source sends, most recent entry first. The first
  has two dated entries, and in its most recent one the low equals the open; the second
  has one dated entry, whose four prices differ.
\<close>

definition sample_response :: string where
  \<open>sample_response = ''{"Meta Data": {"2. Symbol": "RELIANCE.BSE", "3. Last Refreshed": "2024-01-02"}, "Time Series (Daily)": {"2024-01-02": {"1. open": "100.0000", "2. high": "105.0000", "3. low": "100.0000", "4. close": "102.0000", "5. volume": "4000"}, "2024-01-01": {"1. open": "90.0000", "2. high": "95.0000", "3. low": "89.0000", "4. close": "91.0000", "5. volume": "8000"}}}''\<close>

definition sample_response_low :: string where
  \<open>sample_response_low = ''{"Meta Data": {"2. Symbol": "TCS.BSE", "3. Last Refreshed": "2024-01-02"}, "Time Series (Daily)": {"2024-01-02": {"1. open": "100.0000", "2. high": "105.0000", "3. low": "99.5000", "4. close": "99.7500", "5. volume": "4002"}}}''\<close>

text \<open>
  What \<open>std::stod\<close> and \<open>std::stoull\<close> answer on the number strings of the two
  responses (each price is a binary fraction, so the conversion is exact), and what
  \<open>std::to_string\<close> answers on the price 2500.5. The examples convert no other string.
\<close>

definition sample_stod :: "string \<Rightarrow> double option" where
  "sample_stod s =
     (if s = ''100.0000'' then Some (Fin 100)
      else if s = ''105.0000'' then Some (Fin 105)
      else if s = ''102.0000'' then Some (Fin 102)
      else if s = ''99.5000'' then Some (Fin (199 / 2))
      else if s = ''99.7500'' then Some (Fin (399 / 4))
      else None)"

definition sample_stoull :: "string \<Rightarrow> u64 option" where
  "sample_stoull s =
     (if s = ''4000'' then Some 4000 else if s = ''4002'' then Some 4002 else None)"

definition sample_to_string :: "double \<Rightarrow> string" where
  "sample_to_string d = (if d = Fin (5001 / 2) then ''2500.500000'' else ''0.000000'')"

text \<open>A system clock that advances one microsecond from one reading to the next.\<close>

definition sample_clock :: "nat \<Rightarrow> u64" where
  "sample_clock k = 1704153600000000 + of_nat k"


section \<open>Properties of the batched line writer\<close>

lemma flush_proceeds:
  "running w \<Longrightarrow> current_batch w \<noteq> [] \<Longrightarrow>
     current_batch (flush send w) = [] \<and>
     flush_log (flush send w) = flush_log w @ [length (current_batch w)] \<and>
     running (flush send w) \<and> config (flush send w) = config w \<and>
     socket_fd (flush send w) = socket_fd w"
  by (simp add: flush_def Let_def)

lemma write_tick_step:
  assumes "running w" "length (current_batch w) < unat (batch_size (config w))"
  shows "write_tick dts send w tick =
     (if length (current_batch w) + 1 = unat (batch_size (config w))
      then flush send (w\<lparr>current_batch := current_batch w @ [to_ilp_format dts tick]\<rparr>)
      else w\<lparr>current_batch := current_batch w @ [to_ilp_format dts tick]\<rparr>)"
  using assms by (auto simp add: write_tick_def Let_def)

lemma write_tick_obs:
  assumes "running w" "length (current_batch w) < unat (batch_size (config w))"
  shows "running (write_tick dts send w tick) \<and> config (write_tick dts send w tick) = config w \<and>
    current_batch (write_tick dts send w tick) =
      (if length (current_batch w) + 1 = unat (batch_size (config w)) then []
       else current_batch w @ [to_ilp_format dts tick]) \<and>
    flush_log (write_tick dts send w tick) =
      (if length (current_batch w) + 1 = unat (batch_size (config w))
       then flush_log w @ [unat (batch_size (config w))] else flush_log w)"
  using assms by (auto simp add: write_tick_step flush_def Let_def)

lemma write_ticks_obs:
  assumes "running w" "length (current_batch w) < unat (batch_size (config w))"
  shows "running (write_ticks dts w evs) \<and> config (write_ticks dts w evs) = config w \<and>
    length (current_batch (write_ticks dts w evs)) =
      (length (current_batch w) + length evs) mod unat (batch_size (config w)) \<and>
    flush_log (write_ticks dts w evs) =
      flush_log w @ replicate ((length (current_batch w) + length evs) div unat (batch_size (config w)))
         (unat (batch_size (config w)))"
  using assms
proof (induction evs arbitrary: w)
  case Nil
  then show ?case by simp
next
  case (Cons ev evs)
  obtain tick send where ev: "ev = (tick, send)" by (cases ev)
  let ?w1 = "write_tick dts send w tick"
  let ?B = "unat (batch_size (config w))"
  note o = write_tick_obs [OF Cons.prems, of dts send tick]
  have r1: "running ?w1" and c1: "config ?w1 = config w" using o by simp_all
  show ?case
  proof (cases "length (current_batch w) + 1 = ?B")
    case True
    with o have b1: "current_batch ?w1 = []" and l1: "flush_log ?w1 = flush_log w @ [?B]"
      by simp_all
    have lt: "length (current_batch ?w1) < unat (batch_size (config ?w1))"
      using b1 c1 Cons.prems by simp
    have e: "length (current_batch w) + length (ev # evs) = ?B + length evs" using True by simp
    have pos: "0 < ?B" using Cons.prems by simp
    have d: "(?B + length evs) div ?B = Suc (length evs div ?B)" using pos by simp
    show ?thesis using Cons.IH [OF r1 lt] unfolding e
      by (simp add: ev c1 b1 l1 d)
  next
    case False
    with o have b1: "current_batch ?w1 = current_batch w @ [to_ilp_format dts tick]"
      and l1: "flush_log ?w1 = flush_log w" by simp_all
    have lt: "length (current_batch ?w1) < unat (batch_size (config ?w1))"
      using b1 c1 Cons.prems False by simp
    show ?thesis using Cons.IH [OF r1 lt] by (simp add: ev c1 b1 l1)
  qed
qed

text \<open>
  Claim C1. Take a running writer whose pending batch is shorter than the configured
  batch size \<open>B\<close> (so \<open>B \<ge> 1\<close>; a fresh writer, whose batch is empty, is such a state
  whenever \<open>B \<ge> 1\<close>). One \<open>write_tick\<close> flushes exactly when the appended line makes
  the pending count reach \<open>B\<close>: then \<open>flush\<close> reports a batch of \<open>B\<close> lines and the
  batch is empty afterwards, otherwise nothing is flushed and the line stays pending.
  After any sequence of \<open>n\<close> calls, whatever the sends answered, \<open>(k + n) div B\<close>
  flushes have happened, each of \<open>B\<close> lines, and \<open>(k + n) mod B\<close> lines are pending,
  where \<open>k\<close> lines were pending at the start. Every flush that proceeds (writer
  running, batch not empty) leaves the batch empty, for every behaviour of the socket.
\<close>

theorem write_tick_flushes_at_batch_size:
  assumes "running w"
    and "length (current_batch w) < unat (batch_size (config w))"
  shows "flush_log (write_tick dts send w tick) =
           (if length (current_batch w) + 1 = unat (batch_size (config w))
            then flush_log w @ [unat (batch_size (config w))] else flush_log w) \<and>
         current_batch (write_tick dts send w tick) =
           (if length (current_batch w) + 1 = unat (batch_size (config w)) then []
            else current_batch w @ [to_ilp_format dts tick]) \<and>
         running (write_ticks dts w evs) \<and>
         flush_log (write_ticks dts w evs) =
           flush_log w @
           replicate ((length (current_batch w) + length evs) div unat (batch_size (config w)))
             (unat (batch_size (config w))) \<and>
         length (current_batch (write_ticks dts w evs)) =
           (length (current_batch w) + length evs) mod unat (batch_size (config w)) \<and>
         length (current_batch (write_ticks dts w evs)) < unat (batch_size (config w)) \<and>
         (\<forall>send' v. running v \<and> current_batch v \<noteq> [] \<longrightarrow>
            current_batch (flush send' v) = [] \<and>
            flush_log (flush send' v) = flush_log v @ [length (current_batch v)])"
proof -
  have pos: "0 < unat (batch_size (config w))" using assms(2) by simp
  show ?thesis
    using write_tick_obs [OF assms, of dts send tick] write_ticks_obs [OF assms, of dts evs] pos
    by (simp add: flush_proceeds)
qed

text \<open>
  Witness for C1: a running writer with batch size 2 and an empty batch takes three
  ticks; the first send fails and the flush still empties the batch. One flush of two
  lines has happened and one line is pending.
\<close>

theorem write_tick_flushes_at_batch_size_witness:
  "running \<lparr>config = \<lparr>questdb_host = ''localhost'', questdb_port = 9009, batch_size = 2\<rparr>,
            stats = \<lparr>lines_sent = 0, batches_sent = 0, errors = 0\<rparr>,
            current_batch = [], running = True, socket_fd = 3, flush_log = []\<rparr> \<and>
   flush_log (write_ticks (\<lambda>d. ''1.000000'')
      \<lparr>config = \<lparr>questdb_host = ''localhost'', questdb_port = 9009, batch_size = 2\<rparr>,
       stats = \<lparr>lines_sent = 0, batches_sent = 0, errors = 0\<rparr>,
       current_batch = [], running = True, socket_fd = 3, flush_log = []\<rparr>
      [(TickData_ctor 5 ''A'' ''BSE'' (Fin 1) 1 CHR ''B'', \<lambda>fd p. - 1),
       (TickData_ctor 6 ''A'' ''BSE'' (Fin 1) 1 CHR ''B'', \<lambda>fd p. - 1),
       (TickData_ctor 7 ''A'' ''BSE'' (Fin 1) 1 CHR ''B'', \<lambda>fd p. int (length p))]) = [2] \<and>
   length (current_batch (write_ticks (\<lambda>d. ''1.000000'')
      \<lparr>config = \<lparr>questdb_host = ''localhost'', questdb_port = 9009, batch_size = 2\<rparr>,
       stats = \<lparr>lines_sent = 0, batches_sent = 0, errors = 0\<rparr>,
       current_batch = [], running = True, socket_fd = 3, flush_log = []\<rparr>
      [(TickData_ctor 5 ''A'' ''BSE'' (Fin 1) 1 CHR ''B'', \<lambda>fd p. - 1),
       (TickData_ctor 6 ''A'' ''BSE'' (Fin 1) 1 CHR ''B'', \<lambda>fd p. - 1),
       (TickData_ctor 7 ''A'' ''BSE'' (Fin 1) 1 CHR ''B'', \<lambda>fd p. int (length p))])) = 1"
  using write_tick_flushes_at_batch_size
    [of "\<lparr>config = \<lparr>questdb_host = ''localhost'', questdb_port = 9009, batch_size = 2\<rparr>,
         stats = \<lparr>lines_sent = 0, batches_sent = 0, errors = 0\<rparr>,
         current_batch = [], running = True, socket_fd = 3, flush_log = []\<rparr>"
        "\<lambda>d. ''1.000000''" "\<lambda>fd p. - 1" "TickData_ctor 5 ''A'' ''BSE'' (Fin 1) 1 CHR ''B''"
        "[(TickData_ctor 5 ''A'' ''BSE'' (Fin 1) 1 CHR ''B'', \<lambda>fd p. - 1),
          (TickData_ctor 6 ''A'' ''BSE'' (Fin 1) 1 CHR ''B'', \<lambda>fd p. - 1),
          (TickData_ctor 7 ''A'' ''BSE'' (Fin 1) 1 CHR ''B'', \<lambda>fd p. int (length p))]"]
  by simp

lemma unat_add_of_nat:
  "unat (a :: u64) + n < 2 ^ 64 \<Longrightarrow> unat (a + of_nat n) = unat a + n"
  by (simp add: unat_word_ariths unat_of_nat mod_add_right_eq)

lemma unat_add_one:
  "unat (a :: u64) + 1 < 2 ^ 64 \<Longrightarrow> unat (a + 1) = unat a + 1"
  using unat_add_of_nat [of a 1] by simp

text \<open>
  Claim C2. A flush of a non-empty batch by a running writer: when \<open>send_batch\<close>
  succeeds, \<open>lines_sent\<close> grows by the length of the flushed batch, \<open>batches_sent\<close>
  by one and \<open>errors\<close> keeps its value; when it fails, \<open>errors\<close> grows by one and the
  other two counters keep their values. The counters are \<open>size_t\<close> and the additions
  are those of \<open>size_t\<close>; read as natural numbers, the counters grow by exactly these
  amounts as long as the sums stay below \<open>2 ^ 64\<close>.
\<close>

theorem flush_updates_counters:
  "running w \<Longrightarrow> current_batch w \<noteq> [] \<Longrightarrow>
    (if send_batch send (socket_fd w) (current_batch w)
     then lines_sent (stats (flush send w)) =
            lines_sent (stats w) + of_nat (length (current_batch w)) \<and>
          batches_sent (stats (flush send w)) = batches_sent (stats w) + 1 \<and>
          errors (stats (flush send w)) = errors (stats w) \<and>
          (unat (lines_sent (stats w)) + length (current_batch w) < 2 ^ 64 \<longrightarrow>
             unat (lines_sent (stats (flush send w))) =
               unat (lines_sent (stats w)) + length (current_batch w)) \<and>
          (unat (batches_sent (stats w)) + 1 < 2 ^ 64 \<longrightarrow>
             unat (batches_sent (stats (flush send w))) = unat (batches_sent (stats w)) + 1)
     else errors (stats (flush send w)) = errors (stats w) + 1 \<and>
          lines_sent (stats (flush send w)) = lines_sent (stats w) \<and>
          batches_sent (stats (flush send w)) = batches_sent (stats w) \<and>
          (unat (errors (stats w)) + 1 < 2 ^ 64 \<longrightarrow>
             unat (errors (stats (flush send w))) = unat (errors (stats w)) + 1))"
  by (simp add: flush_def Let_def unat_add_of_nat unat_add_one del: One_nat_def)

text \<open>
  Witness for C2: a running writer holding two lines, flushed once over a socket that
  takes the payload and once over a socket that reports an error.
\<close>

theorem flush_updates_counters_witness:
  "send_batch (\<lambda>fd p. int (length p)) 3 [''a'', ''b''] \<and>
   stats (flush (\<lambda>fd p. int (length p))
      \<lparr>config = \<lparr>questdb_host = ''localhost'', questdb_port = 9009, batch_size = 100\<rparr>,
       stats = \<lparr>lines_sent = 7, batches_sent = 1, errors = 0\<rparr>,
       current_batch = [''a'', ''b''], running = True, socket_fd = 3, flush_log = []\<rparr>)
     = \<lparr>lines_sent = 9, batches_sent = 2, errors = 0\<rparr> \<and>
   \<not> send_batch (\<lambda>fd p. - 1) 3 [''a'', ''b''] \<and>
   stats (flush (\<lambda>fd p. - 1)
      \<lparr>config = \<lparr>questdb_host = ''localhost'', questdb_port = 9009, batch_size = 100\<rparr>,
       stats = \<lparr>lines_sent = 7, batches_sent = 1, errors = 0\<rparr>,
       current_batch = [''a'', ''b''], running = True, socket_fd = 3, flush_log = []\<rparr>)
     = \<lparr>lines_sent = 7, batches_sent = 1, errors = 1\<rparr>"
  using flush_updates_counters
    [of "\<lparr>config = \<lparr>questdb_host = ''localhost'', questdb_port = 9009, batch_size = 100\<rparr>,
         stats = \<lparr>lines_sent = 7, batches_sent = 1, errors = 0\<rparr>,
         current_batch = [''a'', ''b''], running = True, socket_fd = 3, flush_log = []\<rparr>"
        "\<lambda>fd p. int (length p)"]
    flush_updates_counters
    [of "\<lparr>config = \<lparr>questdb_host = ''localhost'', questdb_port = 9009, batch_size = 100\<rparr>,
         stats = \<lparr>lines_sent = 7, batches_sent = 1, errors = 0\<rparr>,
         current_batch = [''a'', ''b''], running = True, socket_fd = 3, flush_log = []\<rparr>"
        "\<lambda>fd p. - 1"]
  by (simp add: send_batch_def batch_data_def flush_def)

section \<open>Properties of the latency metrics\<close>

text \<open>
  Claim C3 (the code departs from it). The fetch loop starts from the initial metrics.
  The first request gets an empty response, the second a response that is not empty
  after 100 microseconds. \<open>request_count\<close> counts both, so the average is computed as
  \<open>(0 * 1 + 100) / 2 = 50\<close> while the minimum and the maximum are 100: one successful
  sample has been recorded and the minimum is above the average.
\<close>

theorem latency_average_below_minimum:
  "update_latency_metrics_all LatencyMetrics_init [(True, 700), (False, 100)] =
     Some \<lparr>avg_api_latency = 50, max_api_latency = 100, min_api_latency = 100,
           request_count = 2, error_count = 1\<rparr> \<and>
   sint (50 :: u64) < sint (100 :: u64)"
  by (simp add: update_latency_metrics_def LatencyMetrics_init_def)

section \<open>Properties of the rate limiter\<close>

lemma count_recent_filter:
  "count_recent cutoff ts n = n + length (filter (\<lambda>t. cutoff < t) ts)"
  by (induction ts arbitrary: n) auto

lemma can_make_request_window:
  "fst (can_make_request h24 now request_times) =
     (length (filter (\<lambda>t. now - h24 < t) request_times) < MAX_REQUESTS_PER_DAY)"
  by (simp add: can_make_request_def Let_def count_recent_filter)

lemma record_request_keeps:
  assumes "\<forall>a\<in>set (request_times @ [now]). now - a < h24"
  shows "record_request h24 now request_times = request_times @ [now]"
proof -
  have "filter (\<lambda>time. \<not> is_expired (now - h24) time) (request_times @ [now]) =
          request_times @ [now]"
    using assms by (intro filter_True) (auto simp: is_expired_def)
  then show ?thesis by (simp add: record_request_def Let_def)
qed

lemma record_requests_keeps:
  assumes "\<forall>a\<in>set (request_times @ nows). \<forall>b\<in>set (request_times @ nows). b - a < h24"
  shows "record_requests h24 request_times nows = request_times @ nows"
  using assms
proof (induction nows arbitrary: request_times)
  case Nil
  then show ?case by simp
next
  case (Cons now nows)
  have k: "record_request h24 now request_times = request_times @ [now]"
    using Cons.prems by (intro record_request_keeps) auto
  have "record_requests h24 (request_times @ [now]) nows = (request_times @ [now]) @ nows"
    using Cons.prems by (intro Cons.IH) auto
  then show ?case by (simp add: k)
qed

lemma filter_short_iff:
  "(length (filter P xs) < length xs) = (\<exists>x\<in>set xs. \<not> P x)"
proof
  assume "length (filter P xs) < length xs"
  then have "filter P xs \<noteq> xs" by auto
  then show "\<exists>x\<in>set xs. \<not> P x" by (auto simp: filter_id_conv)
next
  assume "\<exists>x\<in>set xs. \<not> P x"
  then show "length (filter P xs) < length xs" by (auto intro: length_filter_less)
qed

lemma full_window:
  assumes "length nows = MAX_REQUESTS_PER_DAY"
    and "\<forall>a\<in>set nows. \<forall>b\<in>set nows. b - a < h24"
  shows "record_requests h24 [] nows = nows \<and>
         fst (can_make_request h24 now (record_requests h24 [] nows)) =
           (h24 \<le> now - Min (set nows))"
proof -
  have ne: "nows \<noteq> []" using assms(1) by (auto simp: MAX_REQUESTS_PER_DAY_def)
  have k: "record_requests h24 [] nows = nows"
    using record_requests_keeps [of "[]" nows h24] assms(2) by simp
  have "fst (can_make_request h24 now nows) = (\<exists>t\<in>set nows. \<not> now - h24 < t)"
    unfolding can_make_request_window assms(1) [symmetric] by (rule filter_short_iff)
  also have "\<dots> = (Min (set nows) \<le> now - h24)"
    using ne by (auto simp: Min_le_iff not_less)
  finally show ?thesis by (simp add: k) linarith
qed

text \<open>
  Claim C4, as the code has it. Permission is granted exactly when fewer than
  \<open>MAX_REQUESTS_PER_DAY\<close> (25) stored timestamps lie within the trailing window, that
  is, are later than \<open>now - 24h\<close>. After 25 calls of \<open>record_request\<close> on a fresh
  limiter, any two of them less than 24 hours apart, all 25 timestamps are stored, and
  at every instant \<open>now'\<close> the check answers false while the oldest of them is less
  than 24 hours in the past and true once it is 24 hours or more in the past.
\<close>

theorem rate_limit_window:
  "fst (can_make_request h24 now request_times) =
     (length (filter (\<lambda>t. now - h24 < t) request_times) < MAX_REQUESTS_PER_DAY) \<and>
   (length nows = MAX_REQUESTS_PER_DAY \<longrightarrow>
    (\<forall>a\<in>set nows. \<forall>b\<in>set nows. b - a < h24) \<longrightarrow>
      record_requests h24 [] nows = nows \<and>
      fst (can_make_request h24 now' (record_requests h24 [] nows)) =
        (h24 \<le> now' - Min (set nows)))"
  using can_make_request_window full_window by blast

text \<open>
  Witness for C4: 25 requests one microsecond apart, with 24 hours of 86400000000
  microseconds. One microsecond before the oldest is 24 hours old the check answers
  false.
\<close>

theorem rate_limit_window_witness:
  "length [0, 1, 2, 3, 4, 5, 6, 7, 8, 9, 10, 11, 12, 13, 14, 15, 16, 17, 18, 19, 20, 21, 22,
           23, 24 :: int] = MAX_REQUESTS_PER_DAY \<and>
   \<not> fst (can_make_request 86400000000 86399999999
     (record_requests 86400000000 []
        [0, 1, 2, 3, 4, 5, 6, 7, 8, 9, 10, 11, 12, 13, 14, 15, 16, 17, 18, 19, 20, 21, 22,
         23, 24]))"
proof -
  let ?nows = "[0, 1, 2, 3, 4, 5, 6, 7, 8, 9, 10, 11, 12, 13, 14, 15, 16, 17, 18, 19, 20, 21,
                22, 23, 24 :: int]"
  have len: "length ?nows = MAX_REQUESTS_PER_DAY" by code_simp
  have span: "\<forall>a\<in>set ?nows. \<forall>b\<in>set ?nows. b - a < 86400000000" by code_simp
  have old: "\<not> (86400000000 :: int) \<le> 86399999999 - Min (set ?nows)" by code_simp
  from rate_limit_window [of 86400000000 0 "[]" ?nows 86399999999] len span old
  show ?thesis by blast
qed

text \<open>
  Counterexample to C4 as stated: the same 25 requests, and the instant at which the
  oldest timestamp (0) is exactly 24 hours old, so not more than 24 hours in the past.
  The check already answers true.
\<close>

theorem rate_limit_open_at_24h:
  "fst (can_make_request 86400000000 86400000000
     (record_requests 86400000000 []
        [0, 1, 2, 3, 4, 5, 6, 7, 8, 9, 10, 11, 12, 13, 14, 15, 16, 17, 18, 19, 20, 21, 22,
         23, 24])) \<and>
   \<not> (86400000000 :: int) < 86400000000 - 0"
  by code_simp

text \<open>
  Claim C5, as the code has it. \<open>can_make_request\<close> leaves the stored sequence as it
  is: it only counts. The pruning is done by \<open>record_request\<close>: after it, the stored
  sequence is the old one and the new reading without the expired entries, in order,
  and no stored timestamp is 24 hours old or older.
\<close>

theorem can_make_request_keeps_state:
  "snd (can_make_request h24 now request_times) = request_times \<and>
   record_request h24 now request_times =
     filter (\<lambda>time. \<not> is_expired (now - h24) time) (request_times @ [now]) \<and>
   list_all (\<lambda>time. \<not> is_expired (now - h24) time) (record_request h24 now request_times)"
  by (simp add: can_make_request_def record_request_def Let_def list_all_iff)

text \<open>
  Counterexample to C5 as stated: the stored sequence holds the timestamp 0 and the
  check is made 48 hours later. After the check the timestamp is still stored, and it
  is expired.
\<close>

theorem can_make_request_retains_expired:
  "snd (can_make_request 86400000000 172800000000 [0]) = [0] \<and>
   is_expired (172800000000 - 86400000000) 0"
  by (simp add: can_make_request_def is_expired_def)

section \<open>Properties of the wire format\<close>

lemma to_string_nat_examples:
  "to_string_nat 10 = ''10''"
  "to_string_nat 1700000000000000000 = ''1700000000000000000''"
  by (simp_all add: to_string_nat.simps digit_char_def)

lemma unat_times_1000: "unat ((w :: u64) * 1000) = unat w * 1000 mod 2 ^ 64"
  by (simp add: unat_word_ariths)

lemma wrapped: "to_string_nat 2899545218721251328 = ''2899545218721251328''"
  by (simp add: to_string_nat.simps digit_char_def)

text \<open>
  Claim C9, as the code has it. For every tick the line is
  \<open>trades,symbol=<symbol>,exchange=<exchange> price=<price>,quantity=<quantity>,side="<side>" <timestamp_ns>\<close>
  where the price is printed by \<open>std::to_string\<close> and \<open>timestamp_ns\<close> is the decimal
  text of the microsecond timestamp times 1000, reduced modulo \<open>2 ^ 64\<close> (the product
  is computed in \<open>std::uint64_t\<close>). It is the exact product for every timestamp of at
  most 18446744073709551 microseconds. With \<open>2500.500000\<close> as the text of the price,
  the RELIANCE tick of the specification gives exactly the line of the specification.
\<close>

theorem to_ilp_format_line:
  \<open>to_ilp_format dts t =
     ''trades,symbol='' @ symbol t @ '',exchange='' @ exchange t @ '' price='' @ dts (price t) @
     '',quantity='' @ to_string_nat (unat (quantity t)) @ '',side="'' @ [side t] @ ''" '' @
     to_string_nat (unat (timestamp_us t) * 1000 mod 2 ^ 64) \<and>
   (unat (timestamp_us t) \<le> 18446744073709551 \<longrightarrow>
      unat (timestamp_us t) * 1000 mod 2 ^ 64 = unat (timestamp_us t) * 1000) \<and>
   (dts (Fin (5001 / 2)) = ''2500.500000'' \<longrightarrow>
      to_ilp_format dts
        \<lparr>timestamp_us = 1700000000000000, symbol = ''RELIANCE'', exchange = ''BSE'',
         price = Fin (5001 / 2), quantity = 10, side = CHR ''B'',
         receive_time_us = r, process_time_us = p\<rparr> =
      ''trades,symbol=RELIANCE,exchange=BSE price=2500.500000,quantity=10,side="B" 1700000000000000000'')\<close>
proof (intro conjI impI)
  show \<open>to_ilp_format dts t =
     ''trades,symbol='' @ symbol t @ '',exchange='' @ exchange t @ '' price='' @ dts (price t) @
     '',quantity='' @ to_string_nat (unat (quantity t)) @ '',side="'' @ [side t] @ ''" '' @
     to_string_nat (unat (timestamp_us t) * 1000 mod 2 ^ 64)\<close>
    by (simp add: to_ilp_format_def to_string_u64_def unat_times_1000)
next
  assume "unat (timestamp_us t) \<le> 18446744073709551"
  then have "unat (timestamp_us t) * 1000 < 2 ^ 64" by simp
  then show "unat (timestamp_us t) * 1000 mod 2 ^ 64 = unat (timestamp_us t) * 1000" by simp
next
  assume "dts (Fin (5001 / 2)) = ''2500.500000''"
  then show \<open>to_ilp_format dts
        \<lparr>timestamp_us = 1700000000000000, symbol = ''RELIANCE'', exchange = ''BSE'',
         price = Fin (5001 / 2), quantity = 10, side = CHR ''B'',
         receive_time_us = r, process_time_us = p\<rparr> =
      ''trades,symbol=RELIANCE,exchange=BSE price=2500.500000,quantity=10,side="B" 1700000000000000000''\<close>
    by (simp add: to_ilp_format_def to_string_u64_def to_string_nat_examples)
qed

text \<open>
  Witness for C9: the RELIANCE tick, under a \<open>std::to_string\<close> that prints its price as
  \<open>2500.500000\<close>; its timestamp is within the bound and the product is exact.
\<close>

theorem to_ilp_format_line_witness:
  \<open>to_ilp_format sample_to_string
        \<lparr>timestamp_us = 1700000000000000, symbol = ''RELIANCE'', exchange = ''BSE'',
         price = Fin (5001 / 2), quantity = 10, side = CHR ''B'',
         receive_time_us = 1700000000000000, process_time_us = 0\<rparr> =
      ''trades,symbol=RELIANCE,exchange=BSE price=2500.500000,quantity=10,side="B" 1700000000000000000'' \<and>
    unat (1700000000000000 :: u64) \<le> 18446744073709551 \<and>
    unat (1700000000000000 :: u64) * 1000 mod 2 ^ 64 = 1700000000000000000\<close>
proof -
  have d: "sample_to_string (Fin (5001 / 2)) = ''2500.500000''"
    by (simp add: sample_to_string_def)
  have u: "unat (1700000000000000 :: u64) \<le> 18446744073709551" by simp
  note line = to_ilp_format_line [of sample_to_string
      "\<lparr>timestamp_us = 1700000000000000, symbol = ''RELIANCE'', exchange = ''BSE'',
         price = Fin (5001 / 2), quantity = 10, side = CHR ''B'',
         receive_time_us = 1700000000000000, process_time_us = 0\<rparr>" 1700000000000000 0]
  note a = line [THEN conjunct2, THEN conjunct2, rule_format, OF d]
  have b: "unat (1700000000000000 :: u64) * 1000 mod 2 ^ 64 = 1700000000000000000"
    using line [THEN conjunct2, THEN conjunct1] by simp
  show ?thesis by (rule conjI [OF a conjI [OF u b]])
qed

text \<open>
  Counterexample to C9 as stated: the same tick with the timestamp 1700000000000000000
  (nanoseconds written into the microsecond field). The microsecond timestamp times
  1000 is 1700000000000000000000; the line ends in 2899545218721251328.
\<close>

theorem to_ilp_format_timestamp_wraps:
  \<open>to_ilp_format sample_to_string
        \<lparr>timestamp_us = 1700000000000000000, symbol = ''RELIANCE'', exchange = ''BSE'',
         price = Fin (5001 / 2), quantity = 10, side = CHR ''B'',
         receive_time_us = 1700000000000000000, process_time_us = 0\<rparr> =
      ''trades,symbol=RELIANCE,exchange=BSE price=2500.500000,quantity=10,side="B" 2899545218721251328'' \<and>
    unat (1700000000000000000 :: u64) * 1000 = 1700000000000000000000\<close>
  by (simp add: to_ilp_format_def to_string_u64_def sample_to_string_def to_string_nat_examples wrapped)

section \<open>Properties of the \<open>std::string\<close> operations\<close>

lemma take_length_eq_iff: "(take (length pat) s = pat) = (\<exists>post. s = pat @ post)"
proof
  assume "take (length pat) s = pat"
  then have "s = pat @ drop (length pat) s" by (metis append_take_drop_id)
  then show "\<exists>post. s = pat @ post" ..
next
  assume "\<exists>post. s = pat @ post"
  then show "take (length pat) s = pat" by auto
qed

lemma find_scan_occurs:
  "s = pre @ pat @ post \<Longrightarrow> find_scan pat s i \<noteq> None"
proof (induction s arbitrary: pre i)
  case Nil
  then show ?case by simp
next
  case (Cons c cs)
  show ?case
  proof (cases "take (length pat) (c # cs) = pat")
    case True
    then show ?thesis by simp
  next
    case False
    then have "pre \<noteq> []" using Cons.prems by (auto simp: take_length_eq_iff)
    then obtain pre' where "pre = c # pre'" "cs = pre' @ pat @ post"
      using Cons.prems by (cases pre) auto
    then show ?thesis using False Cons.IH by simp
  qed
qed

lemma find_scan_first:
  assumes "s = pre @ pat @ post"
    and "\<forall>pre' post'. s = pre' @ pat @ post' \<longrightarrow> length pre \<le> length pre'"
  shows "find_scan pat s i = Some (i + length pre)"
  using assms
proof (induction pre arbitrary: s i)
  case Nil
  then have t: "take (length pat) s = pat" by simp
  show ?case
  proof (cases s)
    case Nil
    with t show ?thesis by simp
  next
    case (Cons c cs)
    with t show ?thesis by simp
  qed
next
  case (Cons x pre)
  then obtain cs where s: "s = x # cs" and cs: "cs = pre @ pat @ post" by auto
  have no: "take (length pat) s \<noteq> pat"
  proof
    assume "take (length pat) s = pat"
    then obtain post' where "s = [] @ pat @ post'" by (auto simp: take_length_eq_iff)
    with Cons.prems(2) show False by fastforce
  qed
  have min: "\<forall>pre' post'. cs = pre' @ pat @ post' \<longrightarrow> length pre \<le> length pre'"
  proof (intro allI impI)
    fix pre' post' assume "cs = pre' @ pat @ post'"
    then have "s = (x # pre') @ pat @ post'" using s by simp
    with Cons.prems(2) have "length (x # pre) \<le> length (x # pre')" by blast
    then show "length pre \<le> length pre'" by simp
  qed
  show ?case using no Cons.IH [OF cs min, of "Suc i"] by (simp add: s)
qed

lemma scan_while_takeWhile: "scan_while P s i = i + length (takeWhile P s)"
  by (induction s arbitrary: i) auto

lemma find_scan_char:
  "find_scan [c] s i = (if c \<in> set s then Some (i + length (takeWhile (\<lambda>x. x \<noteq> c) s)) else None)"
  by (induction s arbitrary: i) auto

lemma str_find_occurs:
  "s = pre @ pat @ post \<Longrightarrow> str_find s pat 0 \<noteq> None"
  by (simp add: str_find_def find_scan_occurs)

lemma str_find_first:
  assumes "s = pre @ pat @ post"
    and "\<forall>pre' post'. s = pre' @ pat @ post' \<longrightarrow> length pre \<le> length pre'"
  shows "str_find s pat 0 = Some (length pre)"
  using find_scan_first [OF assms, of 0] by (simp add: str_find_def)

lemma find_scan_Some_first:
  "find_scan pat s i = Some j \<Longrightarrow>
     \<exists>pre post. s = pre @ pat @ post \<and> j = i + length pre \<and>
       (\<forall>pre' post'. s = pre' @ pat @ post' \<longrightarrow> length pre \<le> length pre')"
proof (induction s arbitrary: i)
  case Nil
  then show ?case by (auto split: if_splits)
next
  case (Cons c cs)
  show ?case
  proof (cases "take (length pat) (c # cs) = pat")
    case True
    then obtain post where "c # cs = [] @ pat @ post" by (auto simp: take_length_eq_iff)
    moreover have "j = i + length ([] :: string)" using True Cons.prems by simp
    ultimately show ?thesis by (metis le0 list.size(3))
  next
    case False
    then have "find_scan pat cs (Suc i) = Some j" using Cons.prems by simp
    then obtain pre post where p: "cs = pre @ pat @ post" "j = Suc i + length pre"
      and m: "\<forall>pre' post'. cs = pre' @ pat @ post' \<longrightarrow> length pre \<le> length pre'"
      using Cons.IH by blast
    have "\<forall>pre' post'. c # cs = pre' @ pat @ post' \<longrightarrow> length (c # pre) \<le> length pre'"
    proof (intro allI impI)
      fix pre' post' assume a: "c # cs = pre' @ pat @ post'"
      have "pre' \<noteq> []"
      proof
        assume "pre' = []"
        with a have "take (length pat) (c # cs) = pat" by (simp add: take_length_eq_iff)
        with False show False ..
      qed
      then obtain p'' where "pre' = c # p''" "cs = p'' @ pat @ post'"
        using a by (cases pre') auto
      with m show "length (c # pre) \<le> length pre'" by simp
    qed
    moreover have "c # cs = (c # pre) @ pat @ post \<and> j = i + length (c # pre)" using p by simp
    ultimately show ?thesis by blast
  qed
qed

lemma str_find_None_iff:
  "(str_find s pat 0 = None) = (\<nexists>pre post. s = pre @ pat @ post)"
proof
  assume "str_find s pat 0 = None"
  then show "\<nexists>pre post. s = pre @ pat @ post" using str_find_occurs by blast
next
  assume n: "\<nexists>pre post. s = pre @ pat @ post"
  show "str_find s pat 0 = None"
  proof (cases "str_find s pat 0")
    case None then show ?thesis .
  next
    case (Some j)
    then have "find_scan pat s 0 = Some j" by (simp add: str_find_def)
    from find_scan_Some_first [OF this] n show ?thesis by blast
  qed
qed

lemma takeWhile_dropWhile_length:
  "length (takeWhile P xs) + length (dropWhile P xs) = length xs"
  by (induction xs) auto

lemma trim_front:
  "(case find_first_not_of v cs of None \<Rightarrow> [] | Some n \<Rightarrow> drop n v) = dropWhile (\<lambda>c. c \<in> set cs) v"
proof (cases "dropWhile (\<lambda>c. c \<in> set cs) v = []")
  case True
  have "length (takeWhile (\<lambda>c. c \<in> set cs) v) = length v"
    using takeWhile_dropWhile_length [of "\<lambda>c. c \<in> set cs" v] unfolding True by simp
  then show ?thesis unfolding True
    by (simp add: find_first_not_of_def scan_while_takeWhile Let_def)
next
  case False
  then have "length (takeWhile (\<lambda>c. c \<in> set cs) v) < length v"
    using takeWhile_dropWhile_length [of "\<lambda>c. c \<in> set cs" v] by (cases "dropWhile (\<lambda>c. c \<in> set cs) v") auto
  then show ?thesis
    by (simp add: find_first_not_of_def scan_while_takeWhile Let_def dropWhile_eq_drop)
qed

lemma trim_back:
  "(case find_last_not_of v cs of None \<Rightarrow> take 0 v | Some n \<Rightarrow> take (n + 1) v) =
     rev (dropWhile (\<lambda>c. c \<in> set cs) (rev v))"
proof (cases "dropWhile (\<lambda>c. c \<in> set cs) (rev v) = []")
  case True
  have "length (takeWhile (\<lambda>c. c \<in> set cs) (rev v)) = length v"
    using takeWhile_dropWhile_length [of "\<lambda>c. c \<in> set cs" "rev v"] unfolding True by simp
  then show ?thesis unfolding True
    by (simp add: find_last_not_of_def scan_while_takeWhile Let_def)
next
  case False
  let ?k = "length (takeWhile (\<lambda>c. c \<in> set cs) (rev v))"
  have lt: "?k < length v"
    using False takeWhile_dropWhile_length [of "\<lambda>c. c \<in> set cs" "rev v"]
    by (cases "dropWhile (\<lambda>c. c \<in> set cs) (rev v)") auto
  then have a: "length v - 1 - ?k + 1 = length v - ?k" by arith
  have "rev (dropWhile (\<lambda>c. c \<in> set cs) (rev v)) = rev (drop ?k (rev v))"
    by (simp add: dropWhile_eq_drop)
  also have "\<dots> = take (length v - ?k) v" by (simp add: rev_drop)
  finally show ?thesis using lt a
    by (simp add: find_last_not_of_def scan_while_takeWhile Let_def del: One_nat_def)
qed

lemma occurs_before_butlast:
  assumes eq: "u @ pat @ post = pre' @ pat @ post'" and lt: "length pre' < length u"
  shows "\<exists>p r. u @ butlast pat = p @ pat @ r"
proof -
  let ?n = "length pre' + length pat"
  let ?w = "u @ butlast pat"
  have le: "?n \<le> length ?w" using lt by (cases pat) auto
  have pre: "\<exists>t. u @ pat @ post = ?w @ t"
  proof (cases "pat = []")
    case True then show ?thesis by simp
  next
    case False
    then have "pat = butlast pat @ [last pat]" by simp
    then have "u @ pat @ post = ?w @ ([last pat] @ post)" by (metis append.assoc)
    then show ?thesis ..
  qed
  then obtain t where t: "u @ pat @ post = ?w @ t" ..
  have "take ?n (u @ pat @ post) = pre' @ pat" unfolding eq by simp
  moreover have "take ?n (u @ pat @ post) = take ?n ?w" unfolding t using le by simp
  ultimately have "take ?n ?w = pre' @ pat" by simp
  then have "?w = pre' @ pat @ drop ?n ?w" by (metis append_take_drop_id append.assoc)
  then show ?thesis by blast
qed

lemma str_find_pat_at:
  assumes json: "json = a @ u @ pat @ rest"
    and absent: "\<nexists>p r. u @ butlast pat = p @ pat @ r"
    and pos: "pos = length a"
  shows "str_find json pat pos = Some (pos + length u)"
proof -
  have d: "drop pos json = u @ pat @ rest" using json pos by simp
  have min: "\<forall>pre' post'. u @ pat @ rest = pre' @ pat @ post' \<longrightarrow> length u \<le> length pre'"
  proof (intro allI impI)
    fix pre' post' assume e: "u @ pat @ rest = pre' @ pat @ post'"
    show "length u \<le> length pre'"
    proof (rule ccontr)
      assume "\<not> length u \<le> length pre'"
      then have "length pre' < length u" by simp
      from occurs_before_butlast [OF e this] absent show False by blast
    qed
  qed
  have "\<not> length json < pos" using json pos by simp
  then show ?thesis
    unfolding str_find_def d using find_scan_first [OF refl min, of pos] by simp
qed

lemma str_find_char_at:
  assumes json: "json = a @ u @ c # rest"
    and absent: "c \<notin> set u"
    and pos: "pos = length a"
  shows "str_find json [c] pos = Some (pos + length u)"
proof -
  have d: "drop pos json = u @ c # rest" using json pos by simp
  have tw: "takeWhile (\<lambda>x. x \<noteq> c) (u @ c # rest) = u"
    using absent by (induction u) auto
  have "\<not> length json < pos" using json pos by simp
  then show ?thesis unfolding str_find_def d find_scan_char tw by simp
qed

section \<open>Properties of the response extractor\<close>

lemma extract_absent:
  assumes "\<nexists>pre post. json = pre @ ([CHR 0x22] @ key @ [CHR 0x22] @ '':'') @ post"
  shows "extract_json_value json key = []"
proof -
  have "str_find json ([CHR 0x22] @ key @ [CHR 0x22] @ '':'') 0 = None"
    unfolding str_find_None_iff by (rule assms)
  then show ?thesis by (simp add: extract_json_value_def)
qed

lemma extract_found:
  assumes json: "json = pre @ ([CHR 0x22] @ key @ [CHR 0x22] @ '':'') @ post"
    and first: "\<forall>pre' post'. json = pre' @ ([CHR 0x22] @ key @ [CHR 0x22] @ '':'') @ post'
                  \<longrightarrow> length pre \<le> length pre'"
  shows "extract_json_value json key =
     (case dropWhile isspace post of
        [] \<Rightarrow> []
      | c # body \<Rightarrow>
          if c = CHR 0x22
          then (if CHR 0x22 \<in> set body then takeWhile (\<lambda>x. x \<noteq> CHR 0x22) body else [])
          else trimmed (takeWhile (\<lambda>x. x \<noteq> CHR '','' \<and> x \<noteq> CHR ''}'' \<and> x \<noteq> CHR '']'') (c # body)))"
proof -
  let ?m = "[CHR 0x22] @ key @ [CHR 0x22] @ '':''"
  let ?from = "length pre + length ?m"
  let ?k = "length (takeWhile isspace post)"
  let ?st = "?from + ?k"
  let ?rest = "dropWhile isspace post"
  have found: "str_find json ?m 0 = Some (length pre)"
    using str_find_first [OF json first] .
  have d0: "drop ?from json = post"
  proof -
    have "json = (pre @ ?m) @ post" using json by simp
    moreover have "length (pre @ ?m) = ?from" by simp
    ultimately show ?thesis by (metis append_eq_conv_conj)
  qed
  have sc: "scan_while isspace (drop ?from json) ?from = ?st"
    by (simp only: d0 scan_while_takeWhile)
  have len: "length json = ?from + length post" using json by simp
  have kl: "?k + length ?rest = length post" by (rule takeWhile_dropWhile_length)
  have dr: "drop ?st json = ?rest"
  proof -
    have "drop ?st json = drop ?k (drop ?from json)"
      by (simp only: drop_drop add.commute)
    also have "\<dots> = ?rest" by (simp only: d0 dropWhile_eq_drop)
    finally show ?thesis .
  qed
  have unfold: "extract_json_value json key =
     (if length json \<le> ?st then []
      else if json ! ?st = CHR 0x22 then
        (case str_find json [CHR 0x22] (?st + 1) of
           None \<Rightarrow> []
         | Some end \<Rightarrow> substr json (?st + 1) (end - (?st + 1)))
      else
        (let end = scan_while (\<lambda>c. c \<noteq> CHR '','' \<and> c \<noteq> CHR ''}'' \<and> c \<noteq> CHR '']'')
                     (drop ?st json) ?st;
             value0 = substr json ?st (end - ?st);
             value1 = (case find_first_not_of value0 trim_chars of
                         None \<Rightarrow> [] | Some n \<Rightarrow> drop n value0);
             value2 = (case find_last_not_of value1 trim_chars of
                         None \<Rightarrow> take 0 value1 | Some n \<Rightarrow> take (n + 1) value1)
         in value2))"
    unfolding extract_json_value_def Let_def found option.case sc ..
  show ?thesis
  proof (cases ?rest)
    case Nil
    have "length ?rest = 0" unfolding Nil by simp
    then have "length json \<le> ?st" using kl len by linarith
    then show ?thesis unfolding unfold Nil by simp
  next
    case (Cons c body)
    have "length ?rest = Suc (length body)" unfolding Cons by simp
    then have lt: "\<not> length json \<le> ?st" using kl len by linarith
    have nth: "json ! ?st = c"
    proof -
      have "json ! ?st = hd (drop ?st json)" using lt by (simp add: hd_drop_conv_nth)
      then show ?thesis by (simp only: dr Cons list.sel)
    qed
    have dr1: "drop (?st + 1) json = body"
    proof -
      have "drop (?st + 1) json = tl (drop ?st json)" by (simp add: drop_Suc tl_drop)
      then show ?thesis by (simp only: dr Cons list.sel)
    qed
    show ?thesis
    proof (cases "c = CHR 0x22")
      case True
      have sf: "str_find json [CHR 0x22] (?st + 1) =
            (if CHR 0x22 \<in> set body
             then Some (?st + 1 + length (takeWhile (\<lambda>x. x \<noteq> CHR 0x22) body)) else None)"
        using lt unfolding str_find_def dr1 find_scan_char by simp
      have sub: "substr json (?st + 1) (length (takeWhile (\<lambda>x. x \<noteq> CHR 0x22) body)) =
                 takeWhile (\<lambda>x. x \<noteq> CHR 0x22) body"
        unfolding substr_def dr1 by (rule takeWhile_eq_take [symmetric])
      show ?thesis unfolding unfold Cons using lt nth True sf sub by simp
    next
      case False
      let ?nd = "\<lambda>c. c \<noteq> CHR '','' \<and> c \<noteq> CHR ''}'' \<and> c \<noteq> CHR '']''"
      have e: "scan_while ?nd (drop ?st json) ?st = ?st + length (takeWhile ?nd (c # body))"
        unfolding dr Cons scan_while_takeWhile ..
      have sub: "substr json ?st (length (takeWhile ?nd (c # body))) = takeWhile ?nd (c # body)"
        unfolding substr_def dr Cons by (rule takeWhile_eq_take [symmetric])
      have v0: "substr json ?st (scan_while ?nd (drop ?st json) ?st - ?st) = takeWhile ?nd (c # body)"
        by (simp only: e add_diff_cancel_left' sub)
      have c1: "(length json \<le> ?st) = False" using lt by simp
      have c2: "(json ! ?st = CHR 0x22) = False" using nth False by simp
      have "extract_json_value json key = trimmed (takeWhile ?nd (c # body))"
        unfolding unfold c1 c2 if_False Let_def v0 trim_front trim_back trimmed_def ..
      then show ?thesis unfolding Cons using False by simp
    qed
  qed
qed

text \<open>
  Claim C6, as the code has it. Let the key marker be the key in double quotes followed by a colon. When
  the marker does not occur in the blob, the result is empty. Otherwise take the first
  occurrence and skip the white space after it. When the blob ends there, the result is
  empty. When a double quote follows, the result is the text between it and the next
  double quote, without the quotes, and it is empty when the blob ends before a second
  quote. In every other case the result is the text up to the next comma, closing
  brace or closing bracket (up to the end of the blob when there is none), with blanks,
  tabs, carriage returns and line feeds trimmed from both ends.
\<close>

theorem extract_json_value_result:
  "((\<nexists>pre post. json = pre @ ([CHR 0x22] @ key @ [CHR 0x22] @ '':'') @ post) \<longrightarrow>
      extract_json_value json key = []) \<and>
   (json = pre @ ([CHR 0x22] @ key @ [CHR 0x22] @ '':'') @ post \<and>
    (\<forall>pre' post'. json = pre' @ ([CHR 0x22] @ key @ [CHR 0x22] @ '':'') @ post'
        \<longrightarrow> length pre \<le> length pre') \<longrightarrow>
      extract_json_value json key =
        (case dropWhile isspace post of
           [] \<Rightarrow> []
         | c # body \<Rightarrow>
             if c = CHR 0x22
             then (if CHR 0x22 \<in> set body then takeWhile (\<lambda>x. x \<noteq> CHR 0x22) body else [])
             else trimmed (takeWhile (\<lambda>x. x \<noteq> CHR '','' \<and> x \<noteq> CHR ''}'' \<and> x \<noteq> CHR '']'')
                             (c # body))))"
  using extract_absent [of json key] extract_found [of json pre key post] by blast

text \<open>
  Witness for C6: the unquoted value 123.45 of the key \<open>4. close\<close>, the quoted value B
  of the key \<open>side\<close>, a blob without the key, a blob that ends after the marker, and a
  blob that ends inside a quoted value.
\<close>

theorem extract_json_value_result_witness:
  \<open>extract_json_value ''{"4. close": 123.45 , "5. volume": 10}'' ''4. close'' = ''123.45'' \<and>
   extract_json_value ''{"side": "B"}'' ''side'' = ''B'' \<and>
   extract_json_value ''{"side": "B"}'' ''4. close'' = [] \<and>
   extract_json_value ''{"4. close":  '' ''4. close'' = [] \<and>
   extract_json_value ''{"side": "B'' ''side'' = []\<close>
proof -
  have first: "\<forall>pre' post'. CHR ''{'' # rest = pre' @ ([CHR 0x22] @ key @ [CHR 0x22] @ '':'') @ post'
                  \<longrightarrow> length ''{'' \<le> length pre'" for rest key
  proof (intro allI impI)
    fix pre' :: string and post' :: string
    assume "CHR ''{'' # rest = pre' @ ([CHR 0x22] @ key @ [CHR 0x22] @ '':'') @ post'"
    then show "length ''{'' \<le> length pre'" by (cases pre') auto
  qed
  have a: \<open>extract_json_value ''{"4. close": 123.45 , "5. volume": 10}'' ''4. close'' = ''123.45''\<close>
    using extract_json_value_result
      [of \<open>''{"4. close": 123.45 , "5. volume": 10}''\<close> \<open>''4. close''\<close> \<open>''{''\<close>
          \<open>'' 123.45 , "5. volume": 10}''\<close>]
      first [of \<open>''"4. close": 123.45 , "5. volume": 10}''\<close> \<open>''4. close''\<close>]
    by (simp add: isspace_def trimmed_def trim_chars_def)
  have b: \<open>extract_json_value ''{"side": "B"}'' ''side'' = ''B''\<close>
    using extract_json_value_result
      [of \<open>''{"side": "B"}''\<close> \<open>''side''\<close> \<open>''{''\<close> \<open>'' "B"}''\<close>]
      first [of \<open>''"side": "B"}''\<close> \<open>''side''\<close>]
    by (simp add: isspace_def)
  have "str_find ''{\"side\": \"B\"}'' ([CHR 0x22] @ ''4. close'' @ [CHR 0x22] @ '':'') 0 = None"
    by code_simp
  then have c: \<open>extract_json_value ''{"side": "B"}'' ''4. close'' = []\<close>
    using extract_json_value_result [of \<open>''{"side": "B"}''\<close> \<open>''4. close''\<close>]
    unfolding str_find_None_iff by blast
  have d: \<open>extract_json_value ''{"4. close":  '' ''4. close'' = []\<close>
    using extract_json_value_result
      [of \<open>''{"4. close":  ''\<close> \<open>''4. close''\<close> \<open>''{''\<close> \<open>''  ''\<close>]
      first [of \<open>''"4. close":  ''\<close> \<open>''4. close''\<close>]
    by (simp add: isspace_def)
  have e: \<open>extract_json_value ''{"side": "B'' ''side'' = []\<close>
    using extract_json_value_result
      [of \<open>''{"side": "B''\<close> \<open>''side''\<close> \<open>''{''\<close> \<open>'' "B''\<close>]
      first [of \<open>''"side": "B''\<close> \<open>''side''\<close>]
    by (simp add: isspace_def)
  from a b c d e show ?thesis by simp
qed

text \<open>
  Counterexample to C6 as stated: a blob cut inside the unquoted value 123.45 of the key
  \<open>4. close\<close>. No comma, brace or bracket follows the marker, so the value cannot be
  isolated; the result is the partial value, not the empty string.
\<close>

theorem extract_json_value_cut_unquoted:
  \<open>extract_json_value ''{"4. close": 123.4'' ''4. close'' = ''123.4''\<close>
  by code_simp

section \<open>Properties of the parser\<close>

lemma str_contains_iff: "str_contains s pat = (\<exists>pre post. s = pre @ pat @ post)"
  using str_find_None_iff [of s pat] by (auto simp: str_contains_def)

lemma parse_failure_keeps_ticks:
  "\<not> fst (parse_time_series_response stod stoull clock json smb ticks) \<Longrightarrow>
     snd (parse_time_series_response stod stoull clock json smb ticks) = ticks"
  by (auto simp: parse_time_series_response_def Let_def split: option.splits if_splits)

lemma parse_success_cases:
  assumes "parse_time_series_response stod stoull clock json smb ticks = (True, ticks')"
  shows "\<exists>block p_open p_high p_low p_close vol.
           find_data_block json = Some block \<and>
           stod (extract_json_value block ''1. open'') = Some p_open \<and>
           stod (extract_json_value block ''2. high'') = Some p_high \<and>
           stod (extract_json_value block ''3. low'') = Some p_low \<and>
           stod (extract_json_value block ''4. close'') = Some p_close \<and>
           stoull (extract_json_value block ''5. volume'') = Some vol \<and>
           ticks' = synthesize_ticks clock smb p_open p_high p_low p_close vol ticks"
  using assms
  by (auto simp: parse_time_series_response_def Let_def split: option.splits if_splits)

lemma parse_rejects:
  assumes "json = [] \<or> str_contains json ''Error Message'' \<or> str_contains json ''Invalid API call'' \<or>
     (str_contains json ''Thank you for using Alpha Vantage'' \<and> str_contains json ''call frequency'')"
  shows "parse_time_series_response stod stoull clock json smb ticks = (False, ticks)"
  using assms by (auto simp: parse_time_series_response_def)

lemma synthesize_ticks_shape:
  "\<exists>new. synthesize_ticks clock smb p_open p_high p_low p_close vol ticks = ticks @ new \<and>
     map (\<lambda>t. (price t, quantity t, side t, timestamp_us t)) new =
       [(p_open, vol div 4, CHR ''B'', clock 0)] @
       (if dbl_ne p_high p_open then [(p_high, vol div 4, CHR ''B'', clock 0 + 1)] else []) @
       (if dbl_ne p_low p_open \<and> dbl_ne p_low p_high
        then [(p_low, vol div 4, CHR ''S'', clock 0 + 2)] else []) @
       [(p_close, vol div 4, if dbl_gt p_close p_open then CHR ''B'' else CHR ''S'', clock 0 + 3)]"
  by (simp add: synthesize_ticks_def Let_def TickData_ctor_def)

lemma parse_accepts:
  assumes "json \<noteq> []"
    and "\<not> str_contains json ''Error Message''" "\<not> str_contains json ''Invalid API call''"
    and "\<not> (str_contains json ''Thank you for using Alpha Vantage'' \<and> str_contains json ''call frequency'')"
    and "find_data_block json = Some block"
    and "extract_json_value block ''1. open'' \<noteq> []"
    and "extract_json_value block ''4. close'' \<noteq> []"
    and "extract_json_value block ''5. volume'' \<noteq> []"
    and "stod (extract_json_value block ''1. open'') = Some p_open"
    and "stod (extract_json_value block ''2. high'') = Some p_high"
    and "stod (extract_json_value block ''3. low'') = Some p_low"
    and "stod (extract_json_value block ''4. close'') = Some p_close"
    and "stoull (extract_json_value block ''5. volume'') = Some vol"
  shows "parse_time_series_response stod stoull clock json smb ticks =
           (True, synthesize_ticks clock smb p_open p_high p_low p_close vol ticks)"
  using assms by (simp add: parse_time_series_response_def Let_def)

text \<open>
  Claim C7. A payload that is empty, that contains \<open>Error Message\<close> or
  \<open>Invalid API call\<close>, or that contains the throttle notice (both
  \<open>Thank you for using Alpha Vantage\<close> and \<open>call frequency\<close>) makes
  \<open>parse_time_series_response\<close> return false and leaves the vector of ticks as it was.
\<close>

theorem parse_rejects_error_payloads:
  assumes "json = [] \<or>
     (\<exists>pre post. json = pre @ ''Error Message'' @ post) \<or>
     (\<exists>pre post. json = pre @ ''Invalid API call'' @ post) \<or>
     ((\<exists>pre post. json = pre @ ''Thank you for using Alpha Vantage'' @ post) \<and>
      (\<exists>pre post. json = pre @ ''call frequency'' @ post))"
  shows "parse_time_series_response stod stoull clock json smb ticks = (False, ticks)"
  using assms parse_rejects [of json stod stoull clock smb ticks]
  unfolding str_contains_iff by blast

text \<open>
  Witness for C7: a payload with an error message, the empty payload and a throttle
  notice.
\<close>

theorem parse_rejects_error_payloads_witness:
  \<open>parse_time_series_response sample_stod sample_stoull sample_clock
      ''{"Error Message": "Invalid API call. Please retry."}'' ''RELIANCE.BSE'' [] = (False, []) \<and>
    parse_time_series_response sample_stod sample_stoull sample_clock
      [] ''RELIANCE.BSE'' [] = (False, []) \<and>
    parse_time_series_response sample_stod sample_stoull sample_clock
      ''{"Note": "Thank you for using Alpha Vantage! Our standard API call frequency is 5 calls per minute."}''
      ''RELIANCE.BSE'' [] = (False, [])\<close>
proof -
  have a: \<open>''{"Error Message": "Invalid API call. Please retry."}'' =
            ''{"'' @ ''Error Message'' @ ''": "Invalid API call. Please retry."}''\<close> by simp
  have b: \<open>''{"Note": "Thank you for using Alpha Vantage! Our standard API call frequency is 5 calls per minute."}'' =
            ''{"Note": "'' @ ''Thank you for using Alpha Vantage'' @
            ''! Our standard API call frequency is 5 calls per minute."}''\<close> by simp
  have c: \<open>''{"Note": "Thank you for using Alpha Vantage! Our standard API call frequency is 5 calls per minute."}'' =
            ''{"Note": "Thank you for using Alpha Vantage! Our standard API '' @ ''call frequency'' @
            '' is 5 calls per minute."}''\<close> by simp
  show ?thesis
    using parse_rejects_error_payloads
      [of \<open>''{"Error Message": "Invalid API call. Please retry."}''\<close>
          sample_stod sample_stoull sample_clock \<open>''RELIANCE.BSE''\<close> "[]"]
      parse_rejects_error_payloads
      [of "[]" sample_stod sample_stoull sample_clock \<open>''RELIANCE.BSE''\<close> "[]"]
      parse_rejects_error_payloads
      [of \<open>''{"Note": "Thank you for using Alpha Vantage! Our standard API call frequency is 5 calls per minute."}''\<close>
          sample_stod sample_stoull sample_clock \<open>''RELIANCE.BSE''\<close> "[]"]
      a b c
    by blast
qed

lemma find_data_block_located:
  assumes json: \<open>json = head @ ''"Time Series (Daily)"'' @ gap @ ''"20'' @ date @ ''"'' @ sep @
                       ''{'' @ body @ ''}'' @ tail\<close>
    and h2: \<open>\<nexists>p r. head @ ''"Time Series (Daily)'' = p @ ''"Time Series (Daily)"'' @ r\<close>
    and h3: \<open>\<nexists>p r. ''"Time Series (Daily)"'' @ gap @ ''"2'' = p @ ''"20'' @ r\<close>
    and h4: "CHR 0x22 \<notin> set date"
    and h5: "CHR ''{'' \<notin> set sep"
    and h6: "CHR ''}'' \<notin> set body"
  shows "find_data_block json = Some (''{'' @ body @ ''}'')"
proof -
  let ?TS = \<open>''"Time Series (Daily)"''\<close>
  let ?ds = "length head + length (?TS @ gap)"
  let ?de = "?ds + 1 + length (''20'' @ date)"
  let ?bs = "?de + length (CHR 0x22 # sep)"
  let ?be = "?bs + length (CHR ''{'' # body)"
  have p1: "str_find json ([CHR 0x22] @ ''Time Series (Daily)'' @ [CHR 0x22]) 0 = Some (length head)"
  proof -
    have a: \<open>json = [] @ head @ ?TS @ (gap @ ''"20'' @ date @ ''"'' @ sep @ ''{'' @ body @ ''}'' @ tail)\<close>
      using json by simp
    have b: "\<nexists>p r. head @ butlast ?TS = p @ ?TS @ r" using h2 by simp
    from str_find_pat_at [OF a b, of 0] show ?thesis by simp
  qed
  have p2: "str_find json ([CHR 0x22] @ ''20'') (length head) = Some ?ds"
  proof -
    have a: \<open>json = head @ (?TS @ gap) @ ''"20'' @ (date @ ''"'' @ sep @ ''{'' @ body @ ''}'' @ tail)\<close>
      using json by simp
    have b: \<open>\<nexists>p r. (?TS @ gap) @ butlast ''"20'' = p @ ''"20'' @ r\<close> using h3 by simp
    from str_find_pat_at [OF a b refl] show ?thesis by simp
  qed
  have p3: "str_find json [CHR 0x22] (?ds + 1) = Some ?de"
  proof -
    have a: \<open>json = (head @ ?TS @ gap @ ''"'') @ (''20'' @ date) @ CHR 0x22 # (sep @ ''{'' @ body @ ''}'' @ tail)\<close>
      using json by simp
    have b: "CHR 0x22 \<notin> set (''20'' @ date)" using h4 by simp
    have c: \<open>?ds + 1 = length (head @ ?TS @ gap @ ''"'')\<close> by simp
    from str_find_char_at [OF a b c] show ?thesis .
  qed
  have p4: "str_find json ''{'' ?de = Some ?bs"
  proof -
    have a: \<open>json = (head @ ?TS @ gap @ ''"20'' @ date) @ (CHR 0x22 # sep) @ CHR ''{'' # (body @ ''}'' @ tail)\<close>
      using json by simp
    have b: "CHR ''{'' \<notin> set (CHR 0x22 # sep)" using h5 by simp
    have c: \<open>?de = length (head @ ?TS @ gap @ ''"20'' @ date)\<close> by simp
    from str_find_char_at [OF a b c] show ?thesis .
  qed
  have p5: "str_find json ''}'' ?bs = Some ?be"
  proof -
    have a: \<open>json = (head @ ?TS @ gap @ ''"20'' @ date @ ''"'' @ sep) @ (CHR ''{'' # body) @ CHR ''}'' # tail\<close>
      using json by simp
    have b: "CHR ''}'' \<notin> set (CHR ''{'' # body)" using h6 by simp
    have c: \<open>?bs = length (head @ ?TS @ gap @ ''"20'' @ date @ ''"'' @ sep)\<close> by simp
    from str_find_char_at [OF a b c] show ?thesis .
  qed
  have sub: "substr json ?bs (?be - ?bs + 1) = ''{'' @ body @ ''}''"
  proof -
    have a: \<open>json = (head @ ?TS @ gap @ ''"20'' @ date @ ''"'' @ sep) @ (''{'' @ body @ ''}'') @ tail\<close>
      using json by simp
    have c: \<open>?bs = length (head @ ?TS @ gap @ ''"20'' @ date @ ''"'' @ sep)\<close> by simp
    have d: "drop ?bs json = (''{'' @ body @ ''}'') @ tail"
      unfolding c by (subst a) (metis append_eq_conv_conj)
    have e: "?be - ?bs + 1 = length (''{'' @ body @ ''}'')" by simp
    show ?thesis unfolding substr_def d e by simp
  qed
  show ?thesis
    unfolding find_data_block_def p1 option.case p2 p3 p4 p5 sub ..
qed

lemma extract_quoted_field:
  assumes "quoted_field block key v"
  shows "extract_json_value block key = v"
proof -
  from assms obtain pre ws post where
    b: "block = pre @ ([CHR 0x22] @ key @ [CHR 0x22] @ '':'') @ (ws @ [CHR 0x22] @ v @ [CHR 0x22] @ post)"
    and absent: "\<nexists>p r. pre @ ([CHR 0x22] @ key @ [CHR 0x22]) = p @ ([CHR 0x22] @ key @ [CHR 0x22] @ '':'') @ r"
    and ws: "list_all isspace ws" and v: "CHR 0x22 \<notin> set v"
    unfolding quoted_field_def by auto
  have bl: "butlast ([CHR 0x22] @ key @ [CHR 0x22] @ '':'') = [CHR 0x22] @ key @ [CHR 0x22]"
    by (simp add: butlast_append)
  have first: "\<forall>pre' post'. block = pre' @ ([CHR 0x22] @ key @ [CHR 0x22] @ '':'') @ post'
                  \<longrightarrow> length pre \<le> length pre'"
  proof (intro allI impI)
    fix pre' post' assume e: "block = pre' @ ([CHR 0x22] @ key @ [CHR 0x22] @ '':'') @ post'"
    show "length pre \<le> length pre'"
    proof (rule ccontr)
      assume "\<not> length pre \<le> length pre'"
      then have lt: "length pre' < length pre" by simp
      from occurs_before_butlast [OF e [unfolded b] lt] absent show False unfolding bl by blast
    qed
  qed
  have nq: "\<not> isspace (CHR 0x22)" by (simp add: isspace_def)
  have dw: "dropWhile isspace (ws @ [CHR 0x22] @ v @ [CHR 0x22] @ post) = CHR 0x22 # v @ CHR 0x22 # post"
    using ws nq by (induction ws) auto
  have tw: "takeWhile (\<lambda>x. x \<noteq> CHR 0x22) (v @ CHR 0x22 # post) = v"
    using v by (induction v) auto
  show ?thesis
    unfolding extract_found [OF b first] dw by (simp add: tw)
qed

lemma quoted_fieldI:
  assumes "block = pre @ ([CHR 0x22] @ key @ [CHR 0x22] @ '':'') @ ws @ [CHR 0x22] @ v @ [CHR 0x22] @ post"
    and "str_find (pre @ ([CHR 0x22] @ key @ [CHR 0x22])) ([CHR 0x22] @ key @ [CHR 0x22] @ '':'') 0 = None"
    and "list_all isspace ws" and "CHR 0x22 \<notin> set v"
  shows "quoted_field block key v"
  unfolding quoted_field_def using assms unfolding str_find_None_iff by blast

text \<open>
  Claim C8. Take a response in which the marker \<open>"Time Series (Daily)"\<close> first occurs
  after \<open>head\<close> and is followed, with no \<open>"20\<close> in between, by a dated key
  \<open>"20...": \<close> and the data block \<open>{...}\<close> of that entry; this is the first dated
  entry of the series, the most recent one in the order of the data source, and
  whatever follows the block (the older entries) is arbitrary. The response has none of
  the error or throttle markers. In the block, the five fields are quoted values, the
  open, the close and the volume not empty, which \<open>std::stod\<close> converts to open 100,
  high 105, low 100, close 102 and \<open>std::stoull\<close> to volume 4000. Parsing succeeds and
  appends exactly three ticks: the open, the high and the close (the low equals the
  open), each of quantity 1000, all three of side B, with the timestamps \<open>base\<close>,
  \<open>base + 1\<close> and \<open>base + 3\<close>, where \<open>base\<close> is the first reading of the clock.
\<close>

theorem ohlc_scenario_three_ticks:
  assumes \<open>json = head @ ''"Time Series (Daily)"'' @ gap @ ''"20'' @ date @ ''"'' @ sep @
                    ''{'' @ body @ ''}'' @ tail\<close>
    and \<open>\<nexists>p r. head @ ''"Time Series (Daily)'' = p @ ''"Time Series (Daily)"'' @ r\<close>
    and \<open>\<nexists>p r. ''"Time Series (Daily)"'' @ gap @ ''"2'' = p @ ''"20'' @ r\<close>
    and "CHR 0x22 \<notin> set date"
    and "CHR ''{'' \<notin> set sep"
    and "CHR ''}'' \<notin> set body"
    and "\<nexists>pre post. json = pre @ ''Error Message'' @ post"
    and "\<nexists>pre post. json = pre @ ''Invalid API call'' @ post"
    and "\<not> ((\<exists>pre post. json = pre @ ''Thank you for using Alpha Vantage'' @ post) \<and>
             (\<exists>pre post. json = pre @ ''call frequency'' @ post))"
    and "quoted_field (''{'' @ body @ ''}'') ''1. open'' open_str"
    and "quoted_field (''{'' @ body @ ''}'') ''2. high'' high_str"
    and "quoted_field (''{'' @ body @ ''}'') ''3. low'' low_str"
    and "quoted_field (''{'' @ body @ ''}'') ''4. close'' close_str"
    and "quoted_field (''{'' @ body @ ''}'') ''5. volume'' volume_str"
    and "open_str \<noteq> []" and "close_str \<noteq> []" and "volume_str \<noteq> []"
    and "stod open_str = Some (Fin 100)"
    and "stod high_str = Some (Fin 105)"
    and "stod low_str = Some (Fin 100)"
    and "stod close_str = Some (Fin 102)"
    and "stoull volume_str = Some 4000"
  shows "\<exists>new. parse_time_series_response stod stoull clock json smb ticks = (True, ticks @ new) \<and>
           map (\<lambda>t. (price t, quantity t, side t, timestamp_us t)) new =
             [(Fin 100, 1000, CHR ''B'', clock 0),
              (Fin 105, 1000, CHR ''B'', clock 0 + 1),
              (Fin 102, 1000, CHR ''B'', clock 0 + 3)]"
proof -
  let ?block = "''{'' @ body @ ''}''"
  have ne: "json \<noteq> []" using assms(1) by simp
  have blk: "find_data_block json = Some ?block"
    using assms(1-6) by (rule find_data_block_located)
  have e1: "extract_json_value ?block ''1. open'' = open_str"
    using assms(10) by (rule extract_quoted_field)
  have e2: "extract_json_value ?block ''2. high'' = high_str"
    using assms(11) by (rule extract_quoted_field)
  have e3: "extract_json_value ?block ''3. low'' = low_str"
    using assms(12) by (rule extract_quoted_field)
  have e4: "extract_json_value ?block ''4. close'' = close_str"
    using assms(13) by (rule extract_quoted_field)
  have e5: "extract_json_value ?block ''5. volume'' = volume_str"
    using assms(14) by (rule extract_quoted_field)
  have p: "parse_time_series_response stod stoull clock json smb ticks =
        (True, synthesize_ticks clock smb (Fin 100) (Fin 105) (Fin 100) (Fin 102) 4000 ticks)"
  proof (rule parse_accepts [OF ne _ _ _ blk])
    show "\<not> str_contains json ''Error Message''"
      unfolding str_contains_iff using assms(7) .
    show "\<not> str_contains json ''Invalid API call''"
      unfolding str_contains_iff using assms(8) .
    show "\<not> (str_contains json ''Thank you for using Alpha Vantage'' \<and>
             str_contains json ''call frequency'')"
      unfolding str_contains_iff using assms(9) .
  qed (simp_all only: e1 e2 e3 e4 e5 assms(15-22) not_False_eq_True)
  have q: "(4000 :: u64) div 4 = 1000" by simp
  from synthesize_ticks_shape [of clock smb "Fin 100" "Fin 105" "Fin 100" "Fin 102" 4000 ticks]
  show ?thesis unfolding p q by simp
qed

text \<open>
  Witness for C8: the first example response, parsed for the symbol RELIANCE.BSE. Its
  header holds a date before the series marker and an older entry with other prices
  follows the most recent one; the three ticks carry the prices of the most recent
  entry.
\<close>

theorem ohlc_scenario_three_ticks_witness:
  "fst (parse_time_series_response sample_stod sample_stoull sample_clock sample_response
          ''RELIANCE.BSE'' []) \<and>
   map (\<lambda>t. (price t, quantity t, side t, timestamp_us t))
     (snd (parse_time_series_response sample_stod sample_stoull sample_clock sample_response
          ''RELIANCE.BSE'' [])) =
     [(Fin 100, 1000, CHR ''B'', 1704153600000000),
      (Fin 105, 1000, CHR ''B'', 1704153600000001),
      (Fin 102, 1000, CHR ''B'', 1704153600000003)]"
proof -
  let ?head = \<open>''{"Meta Data": {"2. Symbol": "RELIANCE.BSE", "3. Last Refreshed": "2024-01-02"}, ''\<close>
  let ?gap = \<open>'': {''\<close>
  let ?date = \<open>''24-01-02''\<close>
  let ?sep = \<open>'': ''\<close>
  let ?body = \<open>''"1. open": "100.0000", "2. high": "105.0000", "3. low": "100.0000", "4. close": "102.0000", "5. volume": "4000"''\<close>
  let ?tail = \<open>'', "2024-01-01": {"1. open": "90.0000", "2. high": "95.0000", "3. low": "89.0000", "4. close": "91.0000", "5. volume": "8000"}}}''\<close>
  let ?block = "''{'' @ ?body @ ''}''"
  have a1: \<open>sample_response = ?head @ ''"Time Series (Daily)"'' @ ?gap @ ''"20'' @ ?date @ ''"'' @ ?sep @
                    ''{'' @ ?body @ ''}'' @ ?tail\<close>
    by (simp add: sample_response_def)
  have \<open>str_find (?head @ ''"Time Series (Daily)'') ''"Time Series (Daily)"'' 0 = None\<close>
    by code_simp
  then have a2: \<open>\<nexists>p r. ?head @ ''"Time Series (Daily)'' = p @ ''"Time Series (Daily)"'' @ r\<close>
    unfolding str_find_None_iff .
  have \<open>str_find (''"Time Series (Daily)"'' @ ?gap @ ''"2'') ''"20'' 0 = None\<close>
    by code_simp
  then have a3: \<open>\<nexists>p r. ''"Time Series (Daily)"'' @ ?gap @ ''"2'' = p @ ''"20'' @ r\<close>
    unfolding str_find_None_iff .
  have a4: "CHR 0x22 \<notin> set ?date" by simp
  have a5: "CHR ''{'' \<notin> set ?sep" by simp
  have a6: "CHR ''}'' \<notin> set ?body" by code_simp
  have "str_find sample_response ''Error Message'' 0 = None" by code_simp
  then have a7: "\<nexists>pre post. sample_response = pre @ ''Error Message'' @ post"
    unfolding str_find_None_iff .
  have "str_find sample_response ''Invalid API call'' 0 = None" by code_simp
  then have a8: "\<nexists>pre post. sample_response = pre @ ''Invalid API call'' @ post"
    unfolding str_find_None_iff .
  have "str_find sample_response ''call frequency'' 0 = None" by code_simp
  then have "\<nexists>pre post. sample_response = pre @ ''call frequency'' @ post"
    unfolding str_find_None_iff .
  then have a9: "\<not> ((\<exists>pre post. sample_response = pre @ ''Thank you for using Alpha Vantage'' @ post) \<and>
             (\<exists>pre post. sample_response = pre @ ''call frequency'' @ post))" by blast
  have f1: "quoted_field ?block ''1. open'' ''100.0000''"
    by (rule quoted_fieldI [where pre = \<open>''{''\<close> and ws = \<open>'' ''\<close>
          and post = \<open>'', "2. high": "105.0000", "3. low": "100.0000", "4. close": "102.0000", "5. volume": "4000"}''\<close>])
       code_simp+
  have f2: "quoted_field ?block ''2. high'' ''105.0000''"
    by (rule quoted_fieldI [where pre = \<open>''{"1. open": "100.0000", ''\<close> and ws = \<open>'' ''\<close>
          and post = \<open>'', "3. low": "100.0000", "4. close": "102.0000", "5. volume": "4000"}''\<close>])
       code_simp+
  have f3: "quoted_field ?block ''3. low'' ''100.0000''"
    by (rule quoted_fieldI [where pre = \<open>''{"1. open": "100.0000", "2. high": "105.0000", ''\<close>
          and ws = \<open>'' ''\<close>
          and post = \<open>'', "4. close": "102.0000", "5. volume": "4000"}''\<close>])
       code_simp+
  have f4: "quoted_field ?block ''4. close'' ''102.0000''"
    by (rule quoted_fieldI [where pre = \<open>''{"1. open": "100.0000", "2. high": "105.0000", "3. low": "100.0000", ''\<close>
          and ws = \<open>'' ''\<close> and post = \<open>'', "5. volume": "4000"}''\<close>])
       code_simp+
  have f5: "quoted_field ?block ''5. volume'' ''4000''"
    by (rule quoted_fieldI [where pre = \<open>''{"1. open": "100.0000", "2. high": "105.0000", "3. low": "100.0000", "4. close": "102.0000", ''\<close>
          and ws = \<open>'' ''\<close> and post = \<open>''}''\<close>])
       code_simp+
  have n1: "''100.0000'' \<noteq> []" and n2: "''102.0000'' \<noteq> []" and n3: "''4000'' \<noteq> []"
    by simp_all
  have s1: "sample_stod ''100.0000'' = Some (Fin 100)"
    and s2: "sample_stod ''105.0000'' = Some (Fin 105)"
    and s4: "sample_stod ''102.0000'' = Some (Fin 102)"
    and s5: "sample_stoull ''4000'' = Some 4000"
    by (simp_all add: sample_stod_def sample_stoull_def)
  have c: "sample_clock 0 = 1704153600000000" by (simp add: sample_clock_def)
  from ohlc_scenario_three_ticks [where json = sample_response and head = ?head and gap = ?gap and date = ?date
         and sep = ?sep and body = ?body and tail = ?tail
         and stod = sample_stod and stoull = sample_stoull
         and open_str = "''100.0000''" and high_str = "''105.0000''" and low_str = "''100.0000''"
         and close_str = "''102.0000''" and volume_str = "''4000''"
         and clock = sample_clock and smb = "''RELIANCE.BSE''" and ticks = "[]",
         OF a1 a2 a3 a4 a5 a6 a7 a8 a9 f1 f2 f3 f4 f5 n1 n2 n3 s1 s2 s1 s4 s5]
  show ?thesis unfolding c by auto
qed

lemma shape_bounds:
  assumes "map f new = [a] @ (if p then [b] else []) @ (if q then [c] else []) @ [d]"
  shows "2 \<le> length new \<and> length new \<le> 4 \<and> f (hd new) = a \<and> f (last new) = d"
proof -
  let ?r = "[a] @ (if p then [b] else []) @ (if q then [c] else []) @ [d]"
  have l: "length new = length ?r" using assms by (metis length_map)
  have ne: "new \<noteq> []" using l by auto
  have "f (hd new) = hd (map f new)" using ne by (simp add: hd_map)
  moreover have "f (last new) = last (map f new)" using ne by (simp add: last_map)
  ultimately show ?thesis using l unfolding assms by simp
qed

text \<open>
  Claim C10. When \<open>parse_time_series_response\<close> returns true, the ticks after the call
  are the ticks before it followed by between two and four new ticks. Their prices are
  the open, then the high if it differs from the open, then the low if it differs from
  the open and from the high, then the close, where the four prices are what \<open>std::stod\<close>
  gives on the fields of the data block. So the first new tick carries the open price
  and the last one the close price.
\<close>

theorem parse_success_two_to_four_ticks:
  assumes "parse_time_series_response stod stoull clock json smb ticks = (True, ticks')"
  shows "\<exists>block p_open p_high p_low p_close vol new.
           find_data_block json = Some block \<and>
           stod (extract_json_value block ''1. open'') = Some p_open \<and>
           stod (extract_json_value block ''2. high'') = Some p_high \<and>
           stod (extract_json_value block ''3. low'') = Some p_low \<and>
           stod (extract_json_value block ''4. close'') = Some p_close \<and>
           stoull (extract_json_value block ''5. volume'') = Some vol \<and>
           ticks' = ticks @ new \<and>
           map price new =
             [p_open] @ (if dbl_ne p_high p_open then [p_high] else []) @
             (if dbl_ne p_low p_open \<and> dbl_ne p_low p_high then [p_low] else []) @ [p_close] \<and>
           2 \<le> length new \<and> length new \<le> 4 \<and>
           price (hd new) = p_open \<and> price (last new) = p_close"
proof -
  from parse_success_cases [OF assms]
  obtain block p_open p_high p_low p_close vol where
    b: "find_data_block json = Some block"
       "stod (extract_json_value block ''1. open'') = Some p_open"
       "stod (extract_json_value block ''2. high'') = Some p_high"
       "stod (extract_json_value block ''3. low'') = Some p_low"
       "stod (extract_json_value block ''4. close'') = Some p_close"
       "stoull (extract_json_value block ''5. volume'') = Some vol"
    and t: "ticks' = synthesize_ticks clock smb p_open p_high p_low p_close vol ticks"
    by blast
  from synthesize_ticks_shape [of clock smb p_open p_high p_low p_close vol ticks]
  obtain new where n: "synthesize_ticks clock smb p_open p_high p_low p_close vol ticks = ticks @ new"
    and m: "map (\<lambda>t. (price t, quantity t, side t, timestamp_us t)) new =
       [(p_open, vol div 4, CHR ''B'', clock 0)] @
       (if dbl_ne p_high p_open then [(p_high, vol div 4, CHR ''B'', clock 0 + 1)] else []) @
       (if dbl_ne p_low p_open \<and> dbl_ne p_low p_high
        then [(p_low, vol div 4, CHR ''S'', clock 0 + 2)] else []) @
       [(p_close, vol div 4, if dbl_gt p_close p_open then CHR ''B'' else CHR ''S'', clock 0 + 3)]"
    by blast
  have "map price new = map fst (map (\<lambda>t. (price t, quantity t, side t, timestamp_us t)) new)"
    by simp
  also have "\<dots> = [p_open] @ (if dbl_ne p_high p_open then [p_high] else []) @
             (if dbl_ne p_low p_open \<and> dbl_ne p_low p_high then [p_low] else []) @ [p_close]"
    unfolding m by simp
  finally have pr: "map price new = [p_open] @ (if dbl_ne p_high p_open then [p_high] else []) @
             (if dbl_ne p_low p_open \<and> dbl_ne p_low p_high then [p_low] else []) @ [p_close]" .
  from shape_bounds [OF pr] b t n pr show ?thesis by blast
qed

lemma sample_low_parse:
  "parse_time_series_response sample_stod sample_stoull sample_clock sample_response_low ''TCS.BSE'' [] =
     (True,
      [\<lparr>timestamp_us = 1704153600000000, symbol = ''TCS'', exchange = ''BSE'', price = Fin 100,
        quantity = 1000, side = CHR ''B'', receive_time_us = 1704153600000001, process_time_us = 0\<rparr>,
       \<lparr>timestamp_us = 1704153600000001, symbol = ''TCS'', exchange = ''BSE'', price = Fin 105,
        quantity = 1000, side = CHR ''B'', receive_time_us = 1704153600000002, process_time_us = 0\<rparr>,
       \<lparr>timestamp_us = 1704153600000002, symbol = ''TCS'', exchange = ''BSE'', price = Fin (199 / 2),
        quantity = 1000, side = CHR ''S'', receive_time_us = 1704153600000003, process_time_us = 0\<rparr>,
       \<lparr>timestamp_us = 1704153600000003, symbol = ''TCS'', exchange = ''BSE'', price = Fin (399 / 4),
        quantity = 1000, side = CHR ''S'', receive_time_us = 1704153600000004, process_time_us = 0\<rparr>])"
  by code_simp

text \<open>
  Witness for C10: the second example response, whose four prices differ, gives four
  ticks; the first carries the open and the last the close.
\<close>

theorem parse_success_two_to_four_ticks_witness:
  "fst (parse_time_series_response sample_stod sample_stoull sample_clock sample_response_low
          ''TCS.BSE'' []) \<and>
   2 \<le> length (snd (parse_time_series_response sample_stod sample_stoull sample_clock
          sample_response_low ''TCS.BSE'' [])) \<and>
   length (snd (parse_time_series_response sample_stod sample_stoull sample_clock
          sample_response_low ''TCS.BSE'' [])) \<le> 4 \<and>
   map price (snd (parse_time_series_response sample_stod sample_stoull sample_clock
          sample_response_low ''TCS.BSE'' [])) = [Fin 100, Fin 105, Fin (199 / 2), Fin (399 / 4)]"
proof -
  from parse_success_two_to_four_ticks [OF sample_low_parse]
  obtain new where n: "[\<lparr>timestamp_us = 1704153600000000, symbol = ''TCS'', exchange = ''BSE'',
        price = Fin 100, quantity = 1000, side = CHR ''B'',
        receive_time_us = 1704153600000001, process_time_us = 0\<rparr>,
       \<lparr>timestamp_us = 1704153600000001, symbol = ''TCS'', exchange = ''BSE'', price = Fin 105,
        quantity = 1000, side = CHR ''B'', receive_time_us = 1704153600000002, process_time_us = 0\<rparr>,
       \<lparr>timestamp_us = 1704153600000002, symbol = ''TCS'', exchange = ''BSE'', price = Fin (199 / 2),
        quantity = 1000, side = CHR ''S'', receive_time_us = 1704153600000003, process_time_us = 0\<rparr>,
       \<lparr>timestamp_us = 1704153600000003, symbol = ''TCS'', exchange = ''BSE'', price = Fin (399 / 4),
        quantity = 1000, side = CHR ''S'', receive_time_us = 1704153600000004, process_time_us = 0\<rparr>]
       = [] @ new"
    and b: "2 \<le> length new" "length new \<le> 4"
    by blast
  have s: "snd (parse_time_series_response sample_stod sample_stoull sample_clock
          sample_response_low ''TCS.BSE'' []) = new"
    unfolding sample_low_parse using n by simp
  have p: "map price new = [Fin 100, Fin 105, Fin (199 / 2), Fin (399 / 4)]"
    using n by auto
  show ?thesis unfolding s using b p by (simp add: sample_low_parse)
qed

end
